theory Spec2Isabelle
  imports Complex_Main
begin

section \<open>The workflow engine of app/engine.py\<close>

text \<open>
  The engine runs user-supplied node functions over a shared dictionary. The embedding
  follows \<^verbatim>\<open>WorkflowGraph.run\<close> statement by statement:
  \<^item> a Python dict with string keys is a map \<open>string \<rightharpoonup> 'v\<close>; \<^verbatim>\<open>d.copy()\<close> is the map
    itself and \<^verbatim>\<open>d.update(r)\<close> is \<open>d ++ r\<close>;
  \<^item> a callable that may raise returns \<open>exc + 'a\<close>, with \<open>Inl\<close> the exception. An
    exception is its class name and the text \<^verbatim>\<open>str(e)\<close>, the only things the engine
    reads; it is an instance of \<^verbatim>\<open>Exception\<close>, which is what the \<^verbatim>\<open>except\<close> block
    catches. Node functions, loop conditions and edge conditions are functions of the
    dictionary they are given: a node function returns a dictionary, a condition returns
    a truth value, and what they return is all the engine sees of them (a node function
    that also writes into the dictionary it is given is outside the model);
  \<^item> the \<^verbatim>\<open>while\<close> loop may run forever, so it takes fuel: \<open>None\<close> is "not yet returned";
  \<^item> the calls of \<^verbatim>\<open>logger.warning\<close> are recorded in a list; the other log levels
    are not modelled;
  \<^item> \<^verbatim>\<open>run_id\<close> is assigned and never read, so it is left out.
\<close>

subsection \<open>Data\<close>

datatype NodeType = STANDARD | BRANCH | LOOP

datatype exc = Exc string string

fun exc_class :: "exc \<Rightarrow> string" where
  "exc_class (Exc c m) = c"

text \<open>\<^verbatim>\<open>str(e)\<close>\<close>

fun str_exc :: "exc \<Rightarrow> string" where
  "str_exc (Exc c m) = m"

type_synonym 'v dict = "string \<rightharpoonup> 'v"

record 'v ExecutionLog =
  node_id :: string
  status :: string
  input_state :: "'v dict"
  output_state :: "'v dict"
  error :: "string option"

record 'v WorkflowNode =
  ident :: string
  fn :: "'v dict \<Rightarrow> exc + 'v dict"
  node_type :: NodeType
  loop_condition :: "('v dict \<Rightarrow> exc + bool) option"
  max_iterations :: int

record 'v WorkflowEdge =
  from_node :: string
  to_node :: string
  condition :: "('v dict \<Rightarrow> exc + bool) option"

record 'v WorkflowGraph =
  nodes :: "string \<rightharpoonup> 'v WorkflowNode"
  edges :: "'v WorkflowEdge list"
  start_node :: "string option"
  end_nodes :: "string set"

text \<open>The two warnings of \<^verbatim>\<open>run\<close>, with the values their messages are formatted from.\<close>

datatype warning =
  EndedOutsideEndNodes string
| MultipleNextNodes string "string list"

text \<open>
  What leaves \<^verbatim>\<open>run\<close> when it does not return: an exception raised or re-raised by
  \<^verbatim>\<open>run\<close>, or the \<^verbatim>\<open>KeyError\<close> of \<^verbatim>\<open>self.nodes[current_node_id]\<close>, which stands
  outside the \<^verbatim>\<open>try\<close> block and carries the missing key.
\<close>

datatype failure = Raise exc | NodesKeyError string

subsection \<open>Building a graph\<close>

definition quoted :: "string \<Rightarrow> string" where
  "quoted s = [CHR 0x27] @ s @ [CHR 0x27]"

definition WorkflowGraph_init :: "'v WorkflowGraph" where
  "WorkflowGraph_init = \<lparr>nodes = Map.empty, edges = [], start_node = None, end_nodes = {}\<rparr>"

definition add_node ::
  "'v WorkflowGraph \<Rightarrow> string \<Rightarrow> ('v dict \<Rightarrow> exc + 'v dict) \<Rightarrow> NodeType \<Rightarrow>
   ('v dict \<Rightarrow> exc + bool) option \<Rightarrow> int \<Rightarrow> exc + 'v WorkflowGraph" where
  "add_node g nid f ty lc mx =
     (if nid \<in> dom (nodes g)
      then Inl (Exc ''ValueError'' (''Node '' @ quoted nid @ '' already exists''))
      else
        let g1 = g\<lparr>nodes := (nodes g)(nid \<mapsto>
                   \<lparr>ident = nid, fn = f, node_type = ty, loop_condition = lc,
                    max_iterations = mx\<rparr>)\<rparr>
        in Inr (if start_node g1 = None then g1\<lparr>start_node := Some nid\<rparr> else g1))"

definition add_edge ::
  "'v WorkflowGraph \<Rightarrow> string \<Rightarrow> string \<Rightarrow> ('v dict \<Rightarrow> exc + bool) option \<Rightarrow>
   exc + 'v WorkflowGraph" where
  "add_edge g a b c =
     (if a \<notin> dom (nodes g)
      then Inl (Exc ''ValueError'' (''From node '' @ quoted a @ '' does not exist''))
      else if b \<notin> dom (nodes g)
      then Inl (Exc ''ValueError'' (''To node '' @ quoted b @ '' does not exist''))
      else Inr (g\<lparr>edges := edges g @ [\<lparr>from_node = a, to_node = b, condition = c\<rparr>]\<rparr>))"

definition set_start_node :: "'v WorkflowGraph \<Rightarrow> string \<Rightarrow> exc + 'v WorkflowGraph" where
  "set_start_node g nid =
     (if nid \<notin> dom (nodes g)
      then Inl (Exc ''ValueError'' (''Node '' @ quoted nid @ '' does not exist''))
      else Inr (g\<lparr>start_node := Some nid\<rparr>))"

definition set_end_nodes :: "'v WorkflowGraph \<Rightarrow> string list \<Rightarrow> exc + 'v WorkflowGraph" where
  "set_end_nodes g nids =
     (case filter (\<lambda>n. n \<notin> dom (nodes g)) nids of
        n # _ \<Rightarrow> Inl (Exc ''ValueError'' (''Node '' @ quoted n @ '' does not exist''))
      | [] \<Rightarrow> Inr (g\<lparr>end_nodes := set nids\<rparr>))"

subsection \<open>Choosing the next node\<close>

text \<open>
  The \<^verbatim>\<open>for\<close> loop of \<^verbatim>\<open>_get_next_nodes\<close> over the outgoing edges, with the list
  \<^verbatim>\<open>next_nodes\<close> as accumulator. A condition that raises ends the loop with its exception.
\<close>

fun collect_next ::
  "'v WorkflowEdge list \<Rightarrow> 'v dict \<Rightarrow> string list \<Rightarrow> exc + string list" where
  "collect_next [] st next_nodes = Inr next_nodes"
| "collect_next (e # es) st next_nodes =
     (case condition e of
        Some c \<Rightarrow>
          (case c st of
             Inl x \<Rightarrow> Inl x
           | Inr b \<Rightarrow> collect_next es st (if b then next_nodes @ [to_node e] else next_nodes))
      | None \<Rightarrow> collect_next es st (next_nodes @ [to_node e]))"

definition get_next_nodes :: "'v WorkflowGraph \<Rightarrow> string \<Rightarrow> 'v dict \<Rightarrow> exc + string list" where
  "get_next_nodes g current_node st =
     collect_next (filter (\<lambda>e. from_node e = current_node) (edges g)) st []"

subsection \<open>One run\<close>

text \<open>\<^verbatim>\<open>str\<close> of an integer, for the message of the loop limit.\<close>

function str_nat :: "nat \<Rightarrow> string" where
  "str_nat n =
     (if n < 10 then [char_of (48 + n)] else str_nat (n div 10) @ [char_of (48 + n mod 10)])"
  by pat_completeness auto
termination
  by (relation "measure (\<lambda>n. n)") auto

definition str_int :: "int \<Rightarrow> string" where
  "str_int i = (if i < 0 then ''-'' @ str_nat (nat (- i)) else str_nat (nat i))"

text \<open>The local variables of \<^verbatim>\<open>run\<close>, and the warnings logged so far.\<close>

record 'v config =
  state :: "'v dict"
  logs :: "'v ExecutionLog list"
  visited_sequence :: "string list"
  current_node_id :: "string option"
  loop_counter :: "string \<rightharpoonup> int"
  warnings :: "warning list"

text \<open>
  One pass through the body of the \<^verbatim>\<open>while\<close> loop either reaches the end of the
  body or leaves \<^verbatim>\<open>run\<close> with an exception; both come with the values of the local
  variables at that moment.
\<close>

datatype 'v iteration = Next "'v config" | Raised failure "'v config"

datatype 'v outcome = Returned "'v config" | Failed failure "'v config"

text \<open>\<^verbatim>\<open>loop_counter.get(current_node_id, 0)\<close>\<close>

definition counter_get :: "(string \<rightharpoonup> int) \<Rightarrow> string \<Rightarrow> int" where
  "counter_get m k = (case m k of None \<Rightarrow> 0 | Some n \<Rightarrow> n)"

text \<open>
  The \<^verbatim>\<open>except Exception\<close> block: an error entry is appended to \<^verbatim>\<open>logs\<close> and the
  exception is raised again as it is.
\<close>

definition except_handler :: "'v config \<Rightarrow> string \<Rightarrow> 'v dict \<Rightarrow> exc \<Rightarrow> 'v iteration" where
  "except_handler c cur input e =
     Raised (Raise e)
       (c\<lparr>logs := logs c @
             [\<lparr>node_id = cur, status = ''error'', input_state = input,
               output_state = state c, error = Some (str_exc e)\<rparr>]\<rparr>)"

text \<open>Lines 203 to 224: the next nodes and the choice among them.\<close>

definition select_next ::
  "'v WorkflowGraph \<Rightarrow> 'v config \<Rightarrow> string \<Rightarrow> 'v dict \<Rightarrow> 'v iteration" where
  "select_next g c cur input =
     (case get_next_nodes g cur (state c) of
        Inl e \<Rightarrow> except_handler c cur input e
      | Inr next_nodes \<Rightarrow>
          (case next_nodes of
             [] \<Rightarrow>
               Next ((if cur \<notin> end_nodes g \<and> end_nodes g \<noteq> {}
                      then c\<lparr>warnings := warnings c @ [EndedOutsideEndNodes cur]\<rparr>
                      else c)\<lparr>current_node_id := None\<rparr>)
           | [n] \<Rightarrow> Next (c\<lparr>current_node_id := Some n\<rparr>)
           | n # _ \<Rightarrow>
               Next (c\<lparr>warnings := warnings c @ [MultipleNextNodes cur next_nodes],
                       current_node_id := Some n\<rparr>)))"

text \<open>Lines 192 to 201: a loop node with a condition stays or leaves.\<close>

definition after_success ::
  "'v WorkflowGraph \<Rightarrow> 'v WorkflowNode \<Rightarrow> 'v config \<Rightarrow> string \<Rightarrow> 'v dict \<Rightarrow> 'v iteration" where
  "after_success g node c cur input =
     (case loop_condition node of
        Some p \<Rightarrow>
          if node_type node = LOOP
          then (case p (state c) of
                  Inl e \<Rightarrow> except_handler c cur input e
                | Inr b \<Rightarrow>
                    if b then Next c
                    else select_next g (c\<lparr>loop_counter := (loop_counter c)(cur \<mapsto> 0)\<rparr>) cur input)
          else select_next g c cur input
      | None \<Rightarrow> select_next g c cur input)"

text \<open>The test of lines 171 to 174, on the counter after its increment.\<close>

definition loop_limit_exceeded :: "'v WorkflowNode \<Rightarrow> int \<Rightarrow> bool" where
  "loop_limit_exceeded node counter =
     (counter > max_iterations node \<and> loop_condition node = None)"

definition loop_limit_error :: "string \<Rightarrow> 'v WorkflowNode \<Rightarrow> exc" where
  "loop_limit_error cur node =
     Exc ''RuntimeError''
       (''Node '' @ quoted cur @ '' exceeded max iterations ('' @
        str_int (max_iterations node) @ '')'')"

text \<open>The body of the \<^verbatim>\<open>while\<close> loop, lines 159 to 237, at the node \<open>cur\<close>.\<close>

definition iteration_body :: "'v WorkflowGraph \<Rightarrow> 'v config \<Rightarrow> string \<Rightarrow> 'v iteration" where
  "iteration_body g c cur =
     (case nodes g cur of
        None \<Rightarrow> Raised (NodesKeyError cur) c
      | Some node \<Rightarrow>
          let c1 = c\<lparr>visited_sequence := visited_sequence c @ [cur]\<rparr>;
              input = state c1;
              c2 = (if node_type node = LOOP
                    then c1\<lparr>loop_counter :=
                              (loop_counter c1)(cur \<mapsto> counter_get (loop_counter c1) cur + 1)\<rparr>
                    else c1)
          in if node_type node = LOOP \<and>
                loop_limit_exceeded node (counter_get (loop_counter c2) cur)
             then except_handler c2 cur input (loop_limit_error cur node)
             else
               (case fn node (state c2) of
                  Inl e \<Rightarrow> except_handler c2 cur input e
                | Inr result \<Rightarrow>
                    let c3 = c2\<lparr>state := state c2 ++ result\<rparr>;
                        c4 = c3\<lparr>logs := logs c3 @
                               [\<lparr>node_id = cur, status = ''success'', input_state = input,
                                 output_state = state c3, error = None\<rparr>]\<rparr>
                    in after_success g node c4 cur input))"

text \<open>
  The test of \<^verbatim>\<open>while current_node_id:\<close> and of \<^verbatim>\<open>if not self.start_node:\<close>. Python
  takes \<^verbatim>\<open>None\<close> and the empty string for false.
\<close>

definition truthy :: "string option \<Rightarrow> bool" where
  "truthy x = (case x of None \<Rightarrow> False | Some s \<Rightarrow> s \<noteq> [])"

fun loop :: "nat \<Rightarrow> 'v WorkflowGraph \<Rightarrow> 'v config \<Rightarrow> 'v outcome option" where
  "loop 0 g c = (if truthy (current_node_id c) then None else Some (Returned c))"
| "loop (Suc n) g c =
     (case current_node_id c of
        None \<Rightarrow> Some (Returned c)
      | Some cur \<Rightarrow>
          if cur = [] then Some (Returned c)
          else (case iteration_body g c cur of
                  Next c' \<Rightarrow> loop n g c'
                | Raised f c' \<Rightarrow> Some (Failed f c')))"

definition init_config :: "'v WorkflowGraph \<Rightarrow> 'v dict \<Rightarrow> 'v config" where
  "init_config g initial_state =
     \<lparr>state = initial_state, logs = [], visited_sequence = [],
      current_node_id = start_node g, loop_counter = Map.empty, warnings = []\<rparr>"

text \<open>
  \<^verbatim>\<open>run\<close> returns the pair \<^verbatim>\<open>(state, logs)\<close>. When it raises, the exception is all that
  leaves it: \<^verbatim>\<open>raise\<close> re-raises the exception that was caught, and \<^verbatim>\<open>logs\<close> is a
  local variable.
\<close>

definition run ::
  "nat \<Rightarrow> 'v WorkflowGraph \<Rightarrow> 'v dict \<Rightarrow> (failure + 'v dict \<times> 'v ExecutionLog list) option" where
  "run fuel g initial_state =
     (if \<not> truthy (start_node g)
      then Some (Inl (Raise (Exc ''ValueError'' ''No start node defined'')))
      else
        (case loop fuel g (init_config g initial_state) of
           None \<Rightarrow> None
         | Some (Returned c) \<Rightarrow> Some (Inr (state c, logs c))
         | Some (Failed f c) \<Rightarrow> Some (Inl f)))"

subsection \<open>Configurations of a run\<close>

text \<open>
  \<open>steps k g c\<close> is the configuration after \<open>k\<close> more passes through the loop body that
  all reached the end of the body, if the run gets that far. It is the same loop as
  \<open>loop\<close>, stopped after \<open>k\<close> passes, and serves to speak about the configurations a run
  goes through.
\<close>

fun steps :: "nat \<Rightarrow> 'v WorkflowGraph \<Rightarrow> 'v config \<Rightarrow> 'v config option" where
  "steps 0 g c = Some c"
| "steps (Suc k) g c =
     (case current_node_id c of
        None \<Rightarrow> None
      | Some cur \<Rightarrow>
          if cur = [] then None
          else (case iteration_body g c cur of
                  Next c' \<Rightarrow> steps k g c'
                | Raised f c' \<Rightarrow> None))"

text \<open>The entries \<^verbatim>\<open>run\<close> appends.\<close>

definition success_entry :: "string \<Rightarrow> 'v dict \<Rightarrow> 'v dict \<Rightarrow> 'v ExecutionLog" where
  "success_entry cur input output =
     \<lparr>node_id = cur, status = ''success'', input_state = input, output_state = output,
      error = None\<rparr>"

definition error_entry :: "string \<Rightarrow> 'v dict \<Rightarrow> 'v dict \<Rightarrow> string \<Rightarrow> 'v ExecutionLog" where
  "error_entry cur input output msg =
     \<lparr>node_id = cur, status = ''error'', input_state = input, output_state = output,
      error = Some msg\<rparr>"

text \<open>
  The configuration when the node function is called: the node is in
  \<^verbatim>\<open>visited_sequence\<close> and, for a loop node, its counter is incremented.
\<close>

definition enter_node :: "'v WorkflowNode \<Rightarrow> 'v config \<Rightarrow> string \<Rightarrow> 'v config" where
  "enter_node node c cur =
     (let c1 = c\<lparr>visited_sequence := visited_sequence c @ [cur]\<rparr>
      in if node_type node = LOOP
         then c1\<lparr>loop_counter :=
                   (loop_counter c1)(cur \<mapsto> counter_get (loop_counter c1) cur + 1)\<rparr>
         else c1)"

text \<open>The configuration after the result is merged and the success entry appended.\<close>

definition record_success ::
  "'v config \<Rightarrow> string \<Rightarrow> 'v dict \<Rightarrow> 'v dict \<Rightarrow> 'v config" where
  "record_success c cur input result =
     c\<lparr>state := state c ++ result,
       logs := logs c @ [success_entry cur input (state c ++ result)]\<rparr>"

fun iteration_config :: "'v iteration \<Rightarrow> 'v config" where
  "iteration_config (Next c) = c"
| "iteration_config (Raised f c) = c"

fun outcome_config :: "'v outcome \<Rightarrow> 'v config" where
  "outcome_config (Returned c) = c"
| "outcome_config (Failed f c) = c"

subsection \<open>Small graphs\<close>

text \<open>The values of these graphs are integers; a missing key reads as 0.\<close>

definition get0 :: "int dict \<Rightarrow> string \<Rightarrow> int" where
  "get0 s k = (case s k of None \<Rightarrow> 0 | Some v \<Rightarrow> v)"

definition bump :: "string \<Rightarrow> int dict \<Rightarrow> exc + int dict" where
  "bump k s = Inr [k \<mapsto> get0 s k + 1]"

definition mk_node ::
  "string \<Rightarrow> ('v dict \<Rightarrow> exc + 'v dict) \<Rightarrow> NodeType \<Rightarrow> ('v dict \<Rightarrow> exc + bool) option \<Rightarrow>
   int \<Rightarrow> 'v WorkflowNode" where
  "mk_node nid f ty lc mx =
     \<lparr>ident = nid, fn = f, node_type = ty, loop_condition = lc, max_iterations = mx\<rparr>"

definition mk_edge ::
  "string \<Rightarrow> string \<Rightarrow> ('v dict \<Rightarrow> exc + bool) option \<Rightarrow> 'v WorkflowEdge" where
  "mk_edge a b c = \<lparr>from_node = a, to_node = b, condition = c\<rparr>"

text \<open>A loop node that counts to 2 under its condition, then a last node.\<close>

definition count_node :: "int WorkflowNode" where
  "count_node = mk_node ''count'' (bump ''n'') LOOP (Some (\<lambda>s. Inr (get0 s ''n'' < 2))) 10"

definition ex_count :: "int WorkflowGraph" where
  "ex_count =
     \<lparr>nodes = [''count'' \<mapsto> count_node,
               ''done'' \<mapsto> mk_node ''done'' (bump ''finished'') STANDARD None 10],
      edges = [mk_edge ''count'' ''done'' None],
      start_node = Some ''count'',
      end_nodes = {''done''}\<rparr>"

text \<open>A loop node with no condition and an edge back to itself, with bound \<open>K\<close>.\<close>

definition spin_node :: "int \<Rightarrow> int WorkflowNode" where
  "spin_node K = mk_node ''spin'' (bump ''n'') LOOP None K"

definition ex_spin :: "int \<Rightarrow> int WorkflowGraph" where
  "ex_spin K =
     \<lparr>nodes = [''spin'' \<mapsto> spin_node K],
      edges = [mk_edge ''spin'' ''spin'' None],
      start_node = Some ''spin'',
      end_nodes = {}\<rparr>"

text \<open>
  A branch: from \<open>a\<close> the edges to \<open>z\<close> (guard false), to \<open>b\<close> (no guard) and to \<open>c\<close>
  (guard true), in this order. The end nodes leave \<open>b\<close> out.
\<close>

definition ex_branch :: "int WorkflowGraph" where
  "ex_branch =
     \<lparr>nodes = [''a'' \<mapsto> mk_node ''a'' (bump ''n'') BRANCH None 10,
               ''b'' \<mapsto> mk_node ''b'' (bump ''b'') STANDARD None 10,
               ''c'' \<mapsto> mk_node ''c'' (bump ''c'') STANDARD None 10,
               ''z'' \<mapsto> mk_node ''z'' (bump ''z'') STANDARD None 10],
      edges = [mk_edge ''a'' ''z'' (Some (\<lambda>s. Inr (get0 s ''n'' < 0))),
               mk_edge ''a'' ''b'' None,
               mk_edge ''a'' ''c'' (Some (\<lambda>s. Inr (get0 s ''n'' > 0)))],
      start_node = Some ''a'',
      end_nodes = {''c''}\<rparr>"

text \<open>A node whose function raises, alone and after a node that succeeds.\<close>

definition boom :: "int dict \<Rightarrow> exc + int dict" where
  "boom s = Inl (Exc ''Exception'' ''boom'')"

definition ex_fail1 :: "int WorkflowGraph" where
  "ex_fail1 =
     \<lparr>nodes = [''a'' \<mapsto> mk_node ''a'' boom STANDARD None 10],
      edges = [],
      start_node = Some ''a'',
      end_nodes = {}\<rparr>"

definition ex_fail2 :: "int WorkflowGraph" where
  "ex_fail2 =
     \<lparr>nodes = [''a'' \<mapsto> mk_node ''a'' boom STANDARD None 10,
               ''b'' \<mapsto> mk_node ''b'' (bump ''n'') STANDARD None 10],
      edges = [mk_edge ''b'' ''a'' None],
      start_node = Some ''b'',
      end_nodes = {}\<rparr>"

text \<open>A graph whose only node has the empty string for its id.\<close>

definition ex_empty_id :: "int WorkflowGraph" where
  "ex_empty_id =
     \<lparr>nodes = [[] \<mapsto> mk_node [] (bump ''n'') STANDARD None 10],
      edges = [],
      start_node = Some [],
      end_nodes = {}\<rparr>"

text \<open>
  A graph with an edge from \<open>a\<close> to a node whose id is the empty string; the function of
  that node writes the key \<open>reached\<close>.
\<close>

definition ex_empty_dest :: "int WorkflowGraph" where
  "ex_empty_dest =
     \<lparr>nodes = [''a'' \<mapsto> mk_node ''a'' (bump ''n'') STANDARD None 10,
               [] \<mapsto> mk_node [] (bump ''reached'') STANDARD None 10],
      edges = [mk_edge ''a'' [] None],
      start_node = Some ''a'',
      end_nodes = {}\<rparr>"

subsection \<open>Dictionaries as objects\<close>

text \<open>
  For the copy at the entry of \<^verbatim>\<open>run\<close> the dictionaries are objects: the heap is the
  list of the dictionary objects that exist, and a reference is an index into it (a
  Python reference always points to a live object, so a reference is below the length of
  the heap). \<^verbatim>\<open>d.copy()\<close> allocates a new object with the entries of \<open>d\<close>. The values
  stored under the keys are immutable values here; objects nested inside a dictionary,
  which a shallow copy shares, are outside this model.
\<close>

type_synonym 'v heap = "'v dict list"

definition dict_copy :: "'v heap \<Rightarrow> nat \<Rightarrow> 'v heap \<times> nat" where
  "dict_copy h r = (h @ [h ! r], length h)"

text \<open>
  \<^verbatim>\<open>run\<close> on a reference to the caller's dictionary. After
  \<^verbatim>\<open>state = initial_state.copy()\<close> the name \<^verbatim>\<open>initial_state\<close> is not used again; every
  \<^verbatim>\<open>state.update(result)\<close> writes the object \<open>st\<close>, whose successive contents are the
  states of the loop, and \<^verbatim>\<open>run\<close> returns the reference \<open>st\<close> itself. The snapshots in
  the log entries are copies of their own and are kept as values.
\<close>

definition run_ref ::
  "nat \<Rightarrow> 'v WorkflowGraph \<Rightarrow> 'v heap \<Rightarrow> nat \<Rightarrow>
   ('v heap \<times> (failure + nat \<times> 'v ExecutionLog list)) option" where
  "run_ref fuel g h initial_state =
     (if \<not> truthy (start_node g)
      then Some (h, Inl (Raise (Exc ''ValueError'' ''No start node defined'')))
      else
        (case dict_copy h initial_state of
           (h1, st) \<Rightarrow>
             (case loop fuel g (init_config g (h1 ! st)) of
                None \<Rightarrow> None
              | Some (Returned c) \<Rightarrow> Some (h1[st := state c], Inr (st, logs c))
              | Some (Failed f c) \<Rightarrow> Some (h1[st := state c], Inl f))))"

section \<open>The code review workflow of app/workflows.py\<close>

subsection \<open>Python values\<close>

text \<open>
  The values a state can hold are the values of JSON, which is what the API passes to
  \<^verbatim>\<open>run\<close>. Text is a list of characters with code points below 256. Floating point
  numbers are values of a type \<open>'f\<close> that the model does not look into: the arithmetic on
  them is a parameter, the record \<open>fl\<close> below.
\<close>

datatype 'f pyval =
  PNone
| PBool bool
| PInt int
| PFloat 'f
| PStr string
| PList "'f pyval list"
| PDict "(string \<times> 'f pyval) list"

fun type_name :: "'f pyval \<Rightarrow> string" where
  "type_name PNone = ''NoneType''"
| "type_name (PBool b) = ''bool''"
| "type_name (PInt i) = ''int''"
| "type_name (PFloat x) = ''float''"
| "type_name (PStr s) = ''str''"
| "type_name (PList xs) = ''list''"
| "type_name (PDict kvs) = ''dict''"

text \<open>
  The floating point operations the workflow uses. \<open>float_of_int\<close> is the conversion
  Python applies to an \<^verbatim>\<open>int\<close> operand that meets a \<^verbatim>\<open>float\<close>; it is \<open>None\<close> where Python
  raises \<^verbatim>\<open>OverflowError\<close>. Comparisons between an \<^verbatim>\<open>int\<close> and a \<^verbatim>\<open>float\<close> do not convert.
  \<open>f_tenth\<close> is the literal \<^verbatim>\<open>0.1\<close>.
\<close>

record 'f float_ops =
  float_of_int :: "int \<Rightarrow> 'f option"
  f_add :: "'f \<Rightarrow> 'f \<Rightarrow> 'f"
  f_sub :: "'f \<Rightarrow> 'f \<Rightarrow> 'f"
  f_mul :: "'f \<Rightarrow> 'f \<Rightarrow> 'f"
  f_lt :: "'f \<Rightarrow> 'f \<Rightarrow> bool"
  f_lt_int :: "'f \<Rightarrow> int \<Rightarrow> bool"
  int_lt_f :: "int \<Rightarrow> 'f \<Rightarrow> bool"
  f_tenth :: "'f"

text \<open>A number is an \<^verbatim>\<open>int\<close> or a \<^verbatim>\<open>float\<close>; a \<^verbatim>\<open>bool\<close> counts as the \<^verbatim>\<open>int\<close> 0 or 1.\<close>

datatype 'f num = NInt int | NFloat 'f

fun as_num :: "'f pyval \<Rightarrow> 'f num option" where
  "as_num (PBool b) = Some (NInt (if b then 1 else 0))"
| "as_num (PInt i) = Some (NInt i)"
| "as_num (PFloat x) = Some (NFloat x)"
| "as_num v = None"

fun num_val :: "'f num \<Rightarrow> 'f pyval" where
  "num_val (NInt i) = PInt i"
| "num_val (NFloat x) = PFloat x"

definition bind_exc :: "exc + 'a \<Rightarrow> ('a \<Rightarrow> exc + 'b) \<Rightarrow> exc + 'b" where
  "bind_exc m k = (case m of Inl e \<Rightarrow> Inl e | Inr x \<Rightarrow> k x)"

fun to_float :: "'f float_ops \<Rightarrow> 'f num \<Rightarrow> exc + 'f" where
  "to_float fl (NFloat x) = Inr x"
| "to_float fl (NInt i) =
     (case float_of_int fl i of
        None \<Rightarrow> Inl (Exc ''OverflowError'' ''int too large to convert to float'')
      | Some x \<Rightarrow> Inr x)"

text \<open>\<^verbatim>\<open>a + b\<close>, \<^verbatim>\<open>a - b\<close> and \<^verbatim>\<open>a * b\<close> on numbers.\<close>

fun num_arith ::
  "'f float_ops \<Rightarrow> (int \<Rightarrow> int \<Rightarrow> int) \<Rightarrow> ('f \<Rightarrow> 'f \<Rightarrow> 'f) \<Rightarrow> 'f num \<Rightarrow> 'f num \<Rightarrow> exc + 'f num" where
  "num_arith fl iop fop (NInt i) (NInt j) = Inr (NInt (iop i j))"
| "num_arith fl iop fop a b =
     bind_exc (to_float fl a) (\<lambda>x. bind_exc (to_float fl b) (\<lambda>y. Inr (NFloat (fop x y))))"

definition num_add :: "'f float_ops \<Rightarrow> 'f num \<Rightarrow> 'f num \<Rightarrow> exc + 'f num" where
  "num_add fl = num_arith fl (+) (f_add fl)"

definition num_sub :: "'f float_ops \<Rightarrow> 'f num \<Rightarrow> 'f num \<Rightarrow> exc + 'f num" where
  "num_sub fl = num_arith fl (-) (f_sub fl)"

definition num_mul :: "'f float_ops \<Rightarrow> 'f num \<Rightarrow> 'f num \<Rightarrow> exc + 'f num" where
  "num_mul fl = num_arith fl (*) (f_mul fl)"

text \<open>\<^verbatim>\<open>a < b\<close> on numbers; \<^verbatim>\<open>b > a\<close> is the same test.\<close>

fun num_lt :: "'f float_ops \<Rightarrow> 'f num \<Rightarrow> 'f num \<Rightarrow> bool" where
  "num_lt fl (NInt i) (NInt j) = (i < j)"
| "num_lt fl (NInt i) (NFloat y) = int_lt_f fl i y"
| "num_lt fl (NFloat x) (NInt j) = f_lt_int fl x j"
| "num_lt fl (NFloat x) (NFloat y) = f_lt fl x y"

text \<open>
  \<^verbatim>\<open>max(a, b)\<close> and \<^verbatim>\<open>min(a, b)\<close>: the first argument, unless the second is greater
  (smaller).
\<close>

definition py_max :: "'f float_ops \<Rightarrow> 'f num \<Rightarrow> 'f num \<Rightarrow> 'f num" where
  "py_max fl a b = (if num_lt fl a b then b else a)"

definition py_min :: "'f float_ops \<Rightarrow> 'f num \<Rightarrow> 'f num \<Rightarrow> 'f num" where
  "py_min fl a b = (if num_lt fl b a then b else a)"

text \<open>
  The comparisons of the workflow have an \<^verbatim>\<open>int\<close> on one side. Against a value that is
  not a number they raise \<^verbatim>\<open>TypeError\<close>.
\<close>

definition cmp_error :: "string \<Rightarrow> 'f pyval \<Rightarrow> 'f pyval \<Rightarrow> exc" where
  "cmp_error opr a b =
     Exc ''TypeError''
       (quoted opr @ '' not supported between instances of '' @ quoted (type_name a) @
        '' and '' @ quoted (type_name b))"

text \<open>\<^verbatim>\<open>i < v\<close> and \<^verbatim>\<open>i > v\<close> for an \<^verbatim>\<open>int\<close> \<open>i\<close>\<close>

definition int_lt_val :: "'f float_ops \<Rightarrow> int \<Rightarrow> 'f pyval \<Rightarrow> exc + bool" where
  "int_lt_val fl i v =
     (case as_num v of
        Some x \<Rightarrow> Inr (num_lt fl (NInt i) x)
      | None \<Rightarrow> Inl (cmp_error ''<'' (PInt i) v))"

definition int_gt_val :: "'f float_ops \<Rightarrow> int \<Rightarrow> 'f pyval \<Rightarrow> exc + bool" where
  "int_gt_val fl i v =
     (case as_num v of
        Some x \<Rightarrow> Inr (num_lt fl x (NInt i))
      | None \<Rightarrow> Inl (cmp_error ''>'' (PInt i) v))"

text \<open>\<^verbatim>\<open>v + i\<close> for an \<^verbatim>\<open>int\<close> \<open>i\<close>\<close>

definition add_error :: "'f pyval \<Rightarrow> exc" where
  "add_error v =
     Exc ''TypeError''
       (case v of
          PStr s \<Rightarrow> ''can only concatenate str (not '' @ [CHR 0x22] @ ''int'' @ [CHR 0x22] @
                    '') to str''
        | PList xs \<Rightarrow> ''can only concatenate list (not '' @ [CHR 0x22] @ ''int'' @ [CHR 0x22] @
                      '') to list''
        | _ \<Rightarrow> ''unsupported operand type(s) for +: '' @ quoted (type_name v) @ '' and '' @
               quoted ''int'')"

definition val_add_int :: "'f float_ops \<Rightarrow> 'f pyval \<Rightarrow> int \<Rightarrow> exc + 'f pyval" where
  "val_add_int fl v i =
     (case as_num v of
        Some x \<Rightarrow> bind_exc (num_add fl x (NInt i)) (\<lambda>y. Inr (num_val y))
      | None \<Rightarrow> Inl (add_error v))"

subsection \<open>Python strings\<close>

text \<open>The characters \<^verbatim>\<open>str.strip\<close> removes, among the code points below 256.\<close>

definition py_isspace :: "char \<Rightarrow> bool" where
  "py_isspace c =
     ((of_char c :: nat) \<in> {9, 10, 11, 12, 13, 28, 29, 30, 31, 32, 133, 160})"

definition lstrip :: "string \<Rightarrow> string" where
  "lstrip s = dropWhile py_isspace s"

definition rstrip :: "string \<Rightarrow> string" where
  "rstrip s = rev (dropWhile py_isspace (rev s))"

definition strip :: "string \<Rightarrow> string" where
  "strip s = lstrip (rstrip s)"

definition startswith :: "string \<Rightarrow> string \<Rightarrow> bool" where
  "startswith s p = (take (length p) s = p)"

text \<open>
  \<^verbatim>\<open>s.split(sep)\<close> for a separator that is not empty (the workflow only splits at
  literals): the text is cut at each occurrence of \<open>sep\<close>, found from left to right
  without overlap. \<open>cur\<close> is the piece being read.
\<close>

function split_from :: "string \<Rightarrow> string \<Rightarrow> string \<Rightarrow> string list" where
  "split_from sep cur [] = [cur]"
| "split_from sep cur (c # cs) =
     (if sep \<noteq> [] \<and> startswith (c # cs) sep
      then cur # split_from sep [] (drop (length sep) (c # cs))
      else split_from sep (cur @ [c]) cs)"
  by pat_completeness auto
termination
  by (relation "measure (\<lambda>(sep, cur, s). length s)") auto

definition split_py :: "string \<Rightarrow> string \<Rightarrow> string list" where
  "split_py s sep = split_from sep [] s"

text \<open>\<^verbatim>\<open>s.count(sub)\<close>: the occurrences of \<open>sub\<close> from left to right without overlap.\<close>

function count_from :: "string \<Rightarrow> string \<Rightarrow> nat" where
  "count_from sub [] = 0"
| "count_from sub (c # cs) =
     (if sub \<noteq> [] \<and> startswith (c # cs) sub
      then 1 + count_from sub (drop (length sub) (c # cs))
      else count_from sub cs)"
  by pat_completeness auto
termination
  by (relation "measure (\<lambda>(sub, s). length s)") auto

definition str_count :: "string \<Rightarrow> string \<Rightarrow> nat" where
  "str_count s sub = (if sub = [] then length s + 1 else count_from sub s)"

text \<open>\<^verbatim>\<open>sub in s\<close> for two strings\<close>

fun str_contains :: "string \<Rightarrow> string \<Rightarrow> bool" where
  "str_contains sub [] = (sub = [])"
| "str_contains sub (c # cs) = (startswith (c # cs) sub \<or> str_contains sub cs)"

definition newline :: string where
  "newline = [CHR 0x0A]"

subsection \<open>Methods and operators on values\<close>

text \<open>\<^verbatim>\<open>state.get(key, default)\<close>\<close>

definition get_or :: "'v dict \<Rightarrow> string \<Rightarrow> 'v \<Rightarrow> 'v" where
  "get_or st key dflt = (case st key of None \<Rightarrow> dflt | Some v \<Rightarrow> v)"

definition attribute_error :: "'f pyval \<Rightarrow> string \<Rightarrow> exc" where
  "attribute_error v name =
     Exc ''AttributeError''
       (quoted (type_name v) @ '' object has no attribute '' @ quoted name)"

text \<open>\<^verbatim>\<open>v.split(sep)\<close>: only a string has the method.\<close>

definition val_split :: "'f pyval \<Rightarrow> string \<Rightarrow> exc + string list" where
  "val_split v sep =
     (case v of PStr s \<Rightarrow> Inr (split_py s sep) | _ \<Rightarrow> Inl (attribute_error v ''split''))"

text \<open>\<^verbatim>\<open>v.count(sub)\<close>: a string counts occurrences, a list counts equal elements.\<close>

definition val_count :: "'f pyval \<Rightarrow> string \<Rightarrow> exc + int" where
  "val_count v sub =
     (case v of
        PStr s \<Rightarrow> Inr (int (str_count s sub))
      | PList xs \<Rightarrow> Inr (int (length (filter (\<lambda>x. x = PStr sub) xs)))
      | _ \<Rightarrow> Inl (attribute_error v ''count''))"

text \<open>\<^verbatim>\<open>sub in v\<close> for a string \<open>sub\<close>\<close>

definition str_in_val :: "string \<Rightarrow> 'f pyval \<Rightarrow> exc + bool" where
  "str_in_val sub v =
     (case v of
        PStr s \<Rightarrow> Inr (str_contains sub s)
      | PList xs \<Rightarrow> Inr (PStr sub \<in> set xs)
      | PDict kvs \<Rightarrow> Inr (sub \<in> set (map fst kvs))
      | _ \<Rightarrow> Inl (Exc ''TypeError''
                    (''argument of type '' @ quoted (type_name v) @ '' is not iterable'')))"

subsection \<open>The four node functions\<close>

definition index_error :: exc where
  "index_error = Exc ''IndexError'' ''list index out of range''"

text \<open>
  The \<^verbatim>\<open>for\<close> loop of \<^verbatim>\<open>extract_functions\<close> over the lines, with the list
  \<^verbatim>\<open>functions\<close> as accumulator. \<^verbatim>\<open>line.split("def ")[1]\<close> raises \<^verbatim>\<open>IndexError\<close> when the
  split has one piece.
\<close>

text \<open>\<^verbatim>\<open>line.strip().startswith("def ")\<close>\<close>

definition is_def_line :: "string \<Rightarrow> bool" where
  "is_def_line line = startswith (strip line) ''def ''"

fun extract_loop :: "string list \<Rightarrow> string list \<Rightarrow> exc + string list" where
  "extract_loop [] functions = Inr functions"
| "extract_loop (line # lines) functions =
     (if is_def_line line
      then (case split_py line ''def '' of
              _ # x # _ \<Rightarrow>
                (case split_py x ''('' of
                   func_name # _ \<Rightarrow> extract_loop lines (functions @ [func_name])
                 | [] \<Rightarrow> Inl index_error)
            | _ \<Rightarrow> Inl index_error)
      else extract_loop lines functions)"

definition extract_functions :: "'f float_ops \<Rightarrow> 'f pyval dict \<Rightarrow> exc + 'f pyval dict" where
  "extract_functions fl st =
     (let code = get_or st ''code'' (PStr '''')
      in bind_exc (val_split code newline) (\<lambda>lines.
         bind_exc (extract_loop lines []) (\<lambda>functions.
         bind_exc (val_add_int fl (get_or st ''iteration'' (PInt 0)) 1) (\<lambda>iteration.
           Inr [''functions'' \<mapsto> PList (map PStr functions),
                ''function_count'' \<mapsto> PInt (int (length functions)),
                ''iteration'' \<mapsto> iteration]))))"

definition check_complexity :: "'f pyval dict \<Rightarrow> exc + 'f pyval dict" where
  "check_complexity st =
     (let code = get_or st ''code'' (PStr '''')
      in bind_exc (val_split code newline) (\<lambda>lines.
           let complexity_issues =
                 int (length (filter (\<lambda>line. int (length line) - int (length (lstrip line)) > 8)
                                lines));
               complexity_score = max 0 (100 - complexity_issues * 5)
           in Inr [''complexity_issues'' \<mapsto> PInt complexity_issues,
                   ''complexity_score'' \<mapsto> PInt complexity_score]))"

definition detect_issues :: "'f float_ops \<Rightarrow> 'f pyval dict \<Rightarrow> exc + 'f pyval dict" where
  "detect_issues fl st =
     (let code = get_or st ''code'' (PStr '''')
      in bind_exc (val_count code newline) (\<lambda>newlines.
           let issues1 = (if newlines > 30 then [''Long function''] else []);
               func_count = get_or st ''function_count'' (PInt 0)
           in bind_exc (val_count code [CHR 0x22, CHR 0x22, CHR 0x22]) (\<lambda>docstring_count.
              bind_exc (int_lt_val fl docstring_count func_count) (\<lambda>missing.
                let issues2 = issues1 @ (if missing then [''Missing docstrings''] else [])
                in bind_exc (str_in_val ''import'' code) (\<lambda>has_import.
                   bind_exc (if has_import
                             then bind_exc (val_count code ''import'')
                                    (\<lambda>imports. int_gt_val fl imports func_count)
                             else Inr False) (\<lambda>unused.
                     let issues = issues2 @ (if unused then [''Potential unused imports''] else [])
                     in Inr [''issues'' \<mapsto> PList (map PStr issues),
                             ''issue_count'' \<mapsto> PInt (int (length issues))]))))))"

text \<open>
  In \<^verbatim>\<open>suggest_improvements\<close> the first use of \<^verbatim>\<open>issue_count\<close> is \<^verbatim>\<open>issue_count > 2\<close> and
  the first use of \<^verbatim>\<open>complexity_score\<close> is \<^verbatim>\<open>complexity_score < 60\<close>; each raises
  \<^verbatim>\<open>TypeError\<close> unless the value is a number, so the arithmetic that follows is on
  numbers.
\<close>

definition suggest_improvements :: "'f float_ops \<Rightarrow> 'f pyval dict \<Rightarrow> exc + 'f pyval dict" where
  "suggest_improvements fl st =
     (let issues = get_or st ''issues'' (PList []);
          complexity_score = get_or st ''complexity_score'' (PInt 50);
          issue_count = get_or st ''issue_count'' (PInt 0)
      in case as_num issue_count of
           None \<Rightarrow> Inl (cmp_error ''>'' issue_count (PInt 2))
         | Some ic \<Rightarrow>
        (case as_num complexity_score of
           None \<Rightarrow> Inl (cmp_error ''<'' complexity_score (PInt 60))
         | Some cs \<Rightarrow>
             bind_exc (str_in_val ''Missing docstrings'' issues) (\<lambda>missing.
             bind_exc (str_in_val ''Potential unused imports'' issues) (\<lambda>unused.
               let suggestions =
                     (if num_lt fl (NInt 2) ic then [''Refactor into smaller functions''] else []) @
                     (if num_lt fl cs (NInt 60) then [''Reduce nesting depth''] else []) @
                     (if missing then [''Add comprehensive docstrings''] else []) @
                     (if unused then [''Clean up imports''] else [])
               in bind_exc (num_mul fl ic (NInt 10)) (\<lambda>t1.
                  bind_exc (num_sub fl (NInt 100) t1) (\<lambda>q1.
                  bind_exc (num_sub fl (NInt 100) cs) (\<lambda>d.
                  bind_exc (num_mul fl (py_max fl (NInt 0) d) (NFloat (f_tenth fl))) (\<lambda>t2.
                  bind_exc (num_sub fl q1 t2) (\<lambda>q2.
                    Inr [''suggestions'' \<mapsto> PList (map PStr suggestions),
                         ''quality_score'' \<mapsto>
                           num_val (py_max fl (NInt 0) (py_min fl (NInt 100) q2))])))))))))"

subsection \<open>The graph\<close>

text \<open>
  \<^verbatim>\<open>setup_code_review_workflow\<close>, by the calls it makes to the builder. Its argument, the
  tool registry, is not used by any node.
\<close>

definition setup_code_review_workflow :: "'f float_ops \<Rightarrow> exc + 'f pyval WorkflowGraph" where
  "setup_code_review_workflow fl =
     bind_exc (add_node WorkflowGraph_init ''extract'' (extract_functions fl) STANDARD None 10)
       (\<lambda>g1.
     bind_exc (add_node g1 ''complexity'' check_complexity STANDARD None 10) (\<lambda>g2.
     bind_exc (add_node g2 ''detect_issues'' (detect_issues fl) STANDARD None 10) (\<lambda>g3.
     bind_exc (add_node g3 ''suggest'' (suggest_improvements fl) STANDARD None 10) (\<lambda>g4.
     bind_exc (add_edge g4 ''extract'' ''complexity'' None) (\<lambda>g5.
     bind_exc (add_edge g5 ''complexity'' ''detect_issues'' None) (\<lambda>g6.
     bind_exc (add_edge g6 ''detect_issues'' ''suggest'' None) (\<lambda>g7.
     bind_exc (set_start_node g7 ''extract'') (\<lambda>g8.
     set_end_nodes g8 [''suggest'']))))))))"

text \<open>The graph these calls build.\<close>

definition code_review_graph :: "'f float_ops \<Rightarrow> 'f pyval WorkflowGraph" where
  "code_review_graph fl =
     \<lparr>nodes = [''extract'' \<mapsto> mk_node ''extract'' (extract_functions fl) STANDARD None 10,
               ''complexity'' \<mapsto> mk_node ''complexity'' check_complexity STANDARD None 10,
               ''detect_issues'' \<mapsto> mk_node ''detect_issues'' (detect_issues fl) STANDARD None 10,
               ''suggest'' \<mapsto> mk_node ''suggest'' (suggest_improvements fl) STANDARD None 10],
      edges = [mk_edge ''extract'' ''complexity'' None,
               mk_edge ''complexity'' ''detect_issues'' None,
               mk_edge ''detect_issues'' ''suggest'' None],
      start_node = Some ''extract'',
      end_nodes = {''suggest''}\<rparr>"

subsection \<open>Inputs for the workflow\<close>

text \<open>
  An instance of the floating point operations for running the workflow on examples:
  exact arithmetic on rationals in place of rounding.
\<close>

definition exact_ops :: "rat float_ops" where
  "exact_ops =
     \<lparr>float_of_int = (\<lambda>i. Some (of_int i)),
      f_add = (+), f_sub = (-), f_mul = (*),
      f_lt = (<),
      f_lt_int = (\<lambda>x i. x < of_int i),
      int_lt_f = (\<lambda>i x. of_int i < x),
      f_tenth = 1 / 10\<rparr>"

definition two_defs :: string where
  "two_defs = ''def f(x):'' @ newline @ ''  return x'' @ newline @ ''def g():'' @ newline @
              ''  pass''"

definition ex_state :: "rat pyval dict" where
  "ex_state = [''code'' \<mapsto> PStr two_defs]"

definition ex_state_text_iteration :: "rat pyval dict" where
  "ex_state_text_iteration = [''code'' \<mapsto> PStr two_defs, ''iteration'' \<mapsto> PStr ''x'']"

section \<open>Properties of the engine\<close>

lemma collect_next_eq:
  assumes "\<forall>e \<in> set es. \<forall>c. condition e = Some c \<longrightarrow> (\<exists>b. c st = Inr b)"
  shows "collect_next es st acc =
         Inr (acc @ map to_node (filter (\<lambda>e. case condition e of None \<Rightarrow> True | Some c \<Rightarrow> c st = Inr True) es))"
  using assms
proof (induction es arbitrary: acc)
  case Nil
  then show ?case by simp
next
  case (Cons e es)
  show ?case
  proof (cases "condition e")
    case None
    then show ?thesis using Cons by simp
  next
    case (Some c)
    with Cons.prems obtain b where b: "c st = Inr b" by auto
    show ?thesis using Some b Cons by (cases b) simp_all
  qed
qed

lemma get_next_nodes_eq:
  assumes "\<forall>e \<in> set (edges g). from_node e = cur \<longrightarrow> (\<forall>c. condition e = Some c \<longrightarrow> (\<exists>b. c st = Inr b))"
  shows "get_next_nodes g cur st =
         Inr (map to_node (filter (\<lambda>e. from_node e = cur \<and> (case condition e of None \<Rightarrow> True | Some c \<Rightarrow> c st = Inr True)) (edges g)))"
proof -
  have "\<forall>e \<in> set (filter (\<lambda>e. from_node e = cur) (edges g)). \<forall>c. condition e = Some c \<longrightarrow> (\<exists>b. c st = Inr b)"
    using assms by auto
  from collect_next_eq[OF this, of "[]"] show ?thesis
    by (simp add: get_next_nodes_def conj_commute)
qed

lemma select_next_nonempty:
  assumes "get_next_nodes g cur (state c) = Inr (n # ns)"
  shows "\<exists>c'. select_next g c cur inp = Next c' \<and> current_node_id c' = Some n \<and> state c' = state c \<and> logs c' = logs c"
  using assms by (cases ns) (simp_all add: select_next_def)

lemma select_next_empty:
  assumes "get_next_nodes g cur (state c) = Inr []"
  shows "select_next g c cur inp =
     Next (c\<lparr>warnings := warnings c @ (if cur \<notin> end_nodes g \<and> end_nodes g \<noteq> {} then [EndedOutsideEndNodes cur] else []),
             current_node_id := None\<rparr>)"
  using assms by (simp add: select_next_def)

lemma loop_returned: "current_node_id c = None \<Longrightarrow> loop n g c = Some (Returned c)"
  by (cases n) (simp_all add: truthy_def)

lemma loop_steps: "steps k g c = Some c' \<Longrightarrow> loop (k + n) g c = loop n g c'"
proof (induction k arbitrary: c)
  case 0
  then show ?case by simp
next
  case (Suc k)
  then show ?case
    by (auto split: option.splits if_splits iteration.splits)
qed

lemma body_limit:
  assumes "nodes g cur = Some node" "node_type node = LOOP" "loop_condition node = None"
    "max_iterations node < counter_get (loop_counter c) cur + 1"
  shows "iteration_body g c cur =
     Raised (Raise (loop_limit_error cur node))
       (c\<lparr>visited_sequence := visited_sequence c @ [cur],
          loop_counter := (loop_counter c)(cur \<mapsto> counter_get (loop_counter c) cur + 1),
          logs := logs c @ [error_entry cur (state c) (state c) (str_exc (loop_limit_error cur node))]\<rparr>)"
  using assms
  by (simp add: iteration_body_def Let_def loop_limit_exceeded_def except_handler_def counter_get_def error_entry_def)

lemma iteration_body_eq:
  assumes "nodes g cur = Some node"
  shows "iteration_body g c cur =
     (if node_type node = LOOP \<and> loop_limit_exceeded node (counter_get (loop_counter c) cur + 1)
      then except_handler (enter_node node c cur) cur (state c) (loop_limit_error cur node)
      else (case fn node (state c) of
              Inl e \<Rightarrow> except_handler (enter_node node c cur) cur (state c) e
            | Inr result \<Rightarrow>
                after_success g node (record_success (enter_node node c cur) cur (state c) result)
                  cur (state c)))"
  using assms
  by (simp add: iteration_body_def Let_def enter_node_def record_success_def success_entry_def
      counter_get_def split: sum.splits)

lemma enter_node_simps:
  "state (enter_node node c cur) = state c"
  "logs (enter_node node c cur) = logs c"
  "warnings (enter_node node c cur) = warnings c"
  "current_node_id (enter_node node c cur) = current_node_id c"
  "visited_sequence (enter_node node c cur) = visited_sequence c @ [cur]"
  "loop_counter (enter_node node c cur) =
     (if node_type node = LOOP then (loop_counter c)(cur \<mapsto> counter_get (loop_counter c) cur + 1)
      else loop_counter c)"
  by (simp_all add: enter_node_def Let_def)

lemma record_success_simps:
  "state (record_success c cur inp r) = state c ++ r"
  "logs (record_success c cur inp r) = logs c @ [success_entry cur inp (state c ++ r)]"
  "warnings (record_success c cur inp r) = warnings c"
  "current_node_id (record_success c cur inp r) = current_node_id c"
  "visited_sequence (record_success c cur inp r) = visited_sequence c"
  "loop_counter (record_success c cur inp r) = loop_counter c"
  by (simp_all add: record_success_def)

lemma select_next_frame:
  "state (iteration_config (select_next g c cur inp)) = state c"
  "loop_counter (iteration_config (select_next g c cur inp)) = loop_counter c"
  "visited_sequence (iteration_config (select_next g c cur inp)) = visited_sequence c"
  by (simp_all add: select_next_def except_handler_def split: sum.splits list.splits)

text \<open>
  Claim C10. At a loop node with no loop condition whose counter, once incremented,
  exceeds the bound, the run fails with the loop limit error, the log has one more entry,
  an error entry for this node with the message of the error and with the state at the
  start of the attempt as both input and output state, and the state is unchanged.
\<close>

theorem loop_limit_error_entry:
  assumes "current_node_id c = Some cur" "cur \<noteq> []"
    and "nodes g cur = Some node" "node_type node = LOOP" "loop_condition node = None"
    and "max_iterations node < counter_get (loop_counter c) cur + 1"
  shows "\<exists>c'. loop (Suc n) g c = Some (Failed (Raise (loop_limit_error cur node)) c') \<and>
           logs c' = logs c @
             [error_entry cur (state c) (state c) (str_exc (loop_limit_error cur node))] \<and>
           state c' = state c"
  using assms by (simp add: body_limit)

text \<open>
  Claim C3. At a loop node with a loop condition \<open>p\<close>, after the node function returned
  \<open>result\<close> and \<open>p\<close> was evaluated on the merged state: if \<open>p\<close> is true, the pass ends
  with the same current node, the loop goes on from there, the counter of the node is
  its old value plus one, and the pass is the same whatever the edges of the graph are;
  if \<open>p\<close> is false, the edges are evaluated in a configuration where the counter of the
  node is 0, and it is 0 at the end of the pass.
\<close>

theorem loop_condition_stays_or_resets:
  assumes "current_node_id c = Some cur" "cur \<noteq> []"
    and "nodes g cur = Some node" "node_type node = LOOP" "loop_condition node = Some p"
    and "fn node (state c) = Inr result" "p (state c ++ result) = Inr b"
  shows "(b \<longrightarrow>
           (\<exists>c'. iteration_body g c cur = Next c' \<and> loop (Suc n) g c = loop n g c' \<and>
                 current_node_id c' = Some cur \<and>
                 loop_counter c' cur = Some (counter_get (loop_counter c) cur + 1) \<and>
                 (\<forall>es. iteration_body (g\<lparr>edges := es\<rparr>) c cur = Next c'))) \<and>
         (\<not> b \<longrightarrow>
           (\<exists>c0. iteration_body g c cur = select_next g c0 cur (state c) \<and>
                 state c0 = state c ++ result \<and> loop_counter c0 cur = Some 0 \<and>
                 loop_counter (iteration_config (iteration_body g c cur)) cur = Some 0))"
proof -
  let ?c4 = "record_success (enter_node node c cur) cur (state c) result"
  have nolimit: "\<not> loop_limit_exceeded node k" for k
    using assms(5) by (simp add: loop_limit_exceeded_def)
  have body: "iteration_body g' c cur = after_success g' node ?c4 cur (state c)"
    if "nodes g' = nodes g" for g'
    using that assms(3,6) nolimit by (simp add: iteration_body_eq[of g' cur node])
  have st: "state ?c4 = state c ++ result"
    by (simp add: record_success_simps enter_node_simps)
  show ?thesis
  proof (cases b)
    case True
    have "after_success g' node ?c4 cur (state c) = Next ?c4" for g'
      using assms(4,5,7) True st by (simp add: after_success_def)
    then have "iteration_body g' c cur = Next ?c4" if "nodes g' = nodes g" for g'
      using body[OF that] by simp
    then have 1: "iteration_body g c cur = Next ?c4"
      and 2: "\<forall>es. iteration_body (g\<lparr>edges := es\<rparr>) c cur = Next ?c4"
      by simp_all
    have 3: "loop (Suc n) g c = loop n g ?c4"
      using assms(1,2) 1 by simp
    have 4: "current_node_id ?c4 = Some cur"
      using assms(1) by (simp add: record_success_simps enter_node_simps)
    have 5: "loop_counter ?c4 cur = Some (counter_get (loop_counter c) cur + 1)"
      using assms(4) by (simp add: record_success_simps enter_node_simps)
    from True 1 2 3 4 5 show ?thesis by blast
  next
    case False
    let ?c0 = "?c4\<lparr>loop_counter := (loop_counter ?c4)(cur \<mapsto> 0)\<rparr>"
    have 1: "iteration_body g c cur = select_next g ?c0 cur (state c)"
      using body[of g] assms(4,5,7) False st by (simp add: after_success_def)
    have 2: "state ?c0 = state c ++ result" using st by simp
    have 3: "loop_counter ?c0 cur = Some 0" by simp
    have 4: "loop_counter (iteration_config (iteration_body g c cur)) cur = Some 0"
      unfolding 1 select_next_frame using 3 .
    from False 1 2 3 4 show ?thesis by blast
  qed
qed

lemma steps_start_truthy:
  assumes "steps k g c0 = Some c" "current_node_id c = Some cur" "cur \<noteq> []"
  shows "truthy (current_node_id c0)"
  using assms by (cases k) (auto simp: truthy_def split: option.splits if_splits)

lemma run_steps:
  assumes "steps k g (init_config g s) = Some c" "current_node_id c = Some cur" "cur \<noteq> []"
  shows "run (k + n) g s =
     (case loop n g c of None \<Rightarrow> None
      | Some (Returned c') \<Rightarrow> Some (Inr (state c', logs c'))
      | Some (Failed f c') \<Rightarrow> Some (Inl f))"
proof -
  have "truthy (start_node g)"
    using steps_start_truthy[OF assms] by (simp add: init_config_def)
  then show ?thesis
    by (simp add: run_def loop_steps[OF assms(1)])
qed

lemma after_success_leaves:
  assumes "case loop_condition node of None \<Rightarrow> True
           | Some p \<Rightarrow> node_type node = LOOP \<longrightarrow> p (state c) = Inr False"
  shows "\<exists>c0. after_success g node c cur inp = select_next g c0 cur inp \<and> state c0 = state c \<and>
           logs c0 = logs c \<and> warnings c0 = warnings c \<and> visited_sequence c0 = visited_sequence c"
proof (cases "loop_condition node")
  case None
  then show ?thesis by (auto simp: after_success_def)
next
  case (Some p)
  show ?thesis
  proof (cases "node_type node = LOOP")
    case True
    with Some assms have "after_success g node c cur inp =
        select_next g (c\<lparr>loop_counter := (loop_counter c)(cur \<mapsto> 0)\<rparr>) cur inp"
      by (simp add: after_success_def)
    then show ?thesis
      by (intro exI[of _ "c\<lparr>loop_counter := (loop_counter c)(cur \<mapsto> 0)\<rparr>"]) simp
  next
    case False
    with Some show ?thesis by (auto simp: after_success_def)
  qed
qed

text \<open>
  Claim C7. Take a run that has made \<open>k\<close> passes and stands at node \<open>cur\<close>, whose
  function returns, whose loop condition (if it is a loop node with one) is false, and
  which has no eligible outgoing edge. Then \<^verbatim>\<open>run\<close> returns the state and the log
  after this pass, and the pass logs one warning exactly when \<open>cur\<close> is not an end node
  and the set of end nodes is not empty.
\<close>

theorem no_eligible_edge_returns:
  assumes "steps k g (init_config g s) = Some c"
    and "current_node_id c = Some cur" "cur \<noteq> []" "nodes g cur = Some node"
    and "\<not> (node_type node = LOOP \<and>
            loop_limit_exceeded node (counter_get (loop_counter c) cur + 1))"
    and "fn node (state c) = Inr result"
    and "case loop_condition node of None \<Rightarrow> True
         | Some p \<Rightarrow> node_type node = LOOP \<longrightarrow> p (state c ++ result) = Inr False"
    and "get_next_nodes g cur (state c ++ result) = Inr []"
  shows "\<exists>c'. loop (k + Suc n) g (init_config g s) = Some (Returned c') \<and>
           run (k + Suc n) g s = Some (Inr (state c', logs c')) \<and>
           state c' = state c ++ result \<and>
           logs c' = logs c @ [success_entry cur (state c) (state c ++ result)] \<and>
           warnings c' = warnings c @
             (if cur \<notin> end_nodes g \<and> end_nodes g \<noteq> {} then [EndedOutsideEndNodes cur] else [])"
proof -
  let ?c4 = "record_success (enter_node node c cur) cur (state c) result"
  have st: "state ?c4 = state c ++ result"
    by (simp add: record_success_simps enter_node_simps)
  have body: "iteration_body g c cur = after_success g node ?c4 cur (state c)"
    using assms(4,5,6) by (auto simp: iteration_body_eq[of g cur node])
  have lv: "case loop_condition node of None \<Rightarrow> True
      | Some p \<Rightarrow> node_type node = LOOP \<longrightarrow> p (state ?c4) = Inr False"
    using assms(7) unfolding st .
  from after_success_leaves[OF lv, of g cur "state c"]
  obtain c0 where c0: "after_success g node ?c4 cur (state c) = select_next g c0 cur (state c)"
    "state c0 = state ?c4" "logs c0 = logs ?c4" "warnings c0 = warnings ?c4"
    by blast
  let ?c' = "c0\<lparr>warnings := warnings c0 @
        (if cur \<notin> end_nodes g \<and> end_nodes g \<noteq> {} then [EndedOutsideEndNodes cur] else []),
        current_node_id := None\<rparr>"
  have sel: "select_next g c0 cur (state c) = Next ?c'"
    using assms(8) c0(2) st by (simp add: select_next_empty)
  have lp: "loop (Suc n) g c = Some (Returned ?c')"
    using assms(2,3) body c0(1) sel by (simp add: loop_returned)
  have 1: "loop (k + Suc n) g (init_config g s) = Some (Returned ?c')"
    unfolding loop_steps[OF assms(1)] by (rule lp)
  have 2: "run (k + Suc n) g s = Some (Inr (state ?c', logs ?c'))"
    unfolding run_steps[OF assms(1,2,3)] lp by simp
  have 3: "state ?c' = state c ++ result" using c0(2) st by simp
  have 4: "logs ?c' = logs c @ [success_entry cur (state c) (state c ++ result)]"
    using c0(3) by (simp add: record_success_simps enter_node_simps)
  have 5: "warnings ?c' = warnings c @
      (if cur \<notin> end_nodes g \<and> end_nodes g \<noteq> {} then [EndedOutsideEndNodes cur] else [])"
    using c0(4) by (simp add: record_success_simps enter_node_simps)
  from 1 2 3 4 5 show ?thesis by blast
qed

text \<open>
  The choice of the next node. When no condition of an outgoing edge of \<open>cur\<close> raises,
  the next nodes are the destinations of the edges, in the order of \<^verbatim>\<open>self.edges\<close>, that
  leave \<open>cur\<close> and have no condition or a condition that is true on the state; and when
  this list is not empty \<^verbatim>\<open>current_node_id\<close> becomes its first element, the state and
  the log unchanged. Whether the chosen node then runs is decided by the test of the
  \<^verbatim>\<open>while\<close> loop.
\<close>

lemma first_eligible_selected:
  assumes "\<forall>e \<in> set (edges g). from_node e = cur \<longrightarrow>
             (\<forall>p. condition e = Some p \<longrightarrow> (\<exists>b. p (state c) = Inr b))"
  shows "get_next_nodes g cur (state c) =
           Inr (map to_node
                 (filter (\<lambda>e. from_node e = cur \<and>
                             (case condition e of None \<Rightarrow> True
                              | Some p \<Rightarrow> p (state c) = Inr True))
                   (edges g))) \<and>
         (\<forall>n ns. get_next_nodes g cur (state c) = Inr (n # ns) \<longrightarrow>
            (\<exists>c'. select_next g c cur inp = Next c' \<and> current_node_id c' = Some n \<and>
                  state c' = state c \<and> logs c' = logs c))"
  using get_next_nodes_eq[OF assms] select_next_nonempty by blast

lemma select_next_Next:
  assumes "select_next g c cur inp = Next c'"
  shows "state c' = state c \<and> logs c' = logs c \<and> visited_sequence c' = visited_sequence c \<and>
         loop_counter c' = loop_counter c"
  using assms
  by (auto simp: select_next_def except_handler_def split: sum.splits list.splits if_splits)

lemma select_next_Raised:
  assumes "select_next g c cur inp = Raised f c'"
  shows "\<exists>e. f = Raise e \<and> get_next_nodes g cur (state c) = Inl e \<and>
           c' = c\<lparr>logs := logs c @ [error_entry cur inp (state c) (str_exc e)]\<rparr>"
  using assms
  by (auto simp: select_next_def except_handler_def error_entry_def
      split: sum.splits list.splits if_splits)

lemma after_success_Next:
  assumes "after_success g node c cur inp = Next c'"
  shows "state c' = state c \<and> logs c' = logs c \<and> visited_sequence c' = visited_sequence c \<and>
         (loop_counter c' = loop_counter c \<or>
          (loop_condition node \<noteq> None \<and> loop_counter c' = (loop_counter c)(cur \<mapsto> 0)))"
  using assms
  by (auto simp: after_success_def except_handler_def
      split: option.splits sum.splits if_splits dest!: select_next_Next)

lemma after_success_Raised:
  assumes "after_success g node c cur inp = Raised f c'"
  shows "\<exists>e. f = Raise e \<and> state c' = state c \<and>
           logs c' = logs c @ [error_entry cur inp (state c) (str_exc e)] \<and>
           visited_sequence c' = visited_sequence c"
  using assms
  by (auto simp: after_success_def except_handler_def error_entry_def
      split: option.splits sum.splits if_splits dest!: select_next_Raised)

lemma body_Next:
  assumes "iteration_body g c cur = Next c'"
  shows "\<exists>node result. nodes g cur = Some node \<and> fn node (state c) = Inr result \<and>
           \<not> (node_type node = LOOP \<and>
              loop_limit_exceeded node (counter_get (loop_counter c) cur + 1)) \<and>
           state c' = state c ++ result \<and>
           logs c' = logs c @ [success_entry cur (state c) (state c ++ result)] \<and>
           visited_sequence c' = visited_sequence c @ [cur] \<and>
           (loop_counter c' = loop_counter (enter_node node c cur) \<or>
            (loop_condition node \<noteq> None \<and>
             loop_counter c' = (loop_counter (enter_node node c cur))(cur \<mapsto> 0)))"
proof (cases "nodes g cur")
  case None
  with assms show ?thesis by (simp add: iteration_body_def)
next
  case (Some node)
  have nl: "\<not> (node_type node = LOOP \<and>
              loop_limit_exceeded node (counter_get (loop_counter c) cur + 1))"
    using assms by (auto simp: iteration_body_eq[OF Some] except_handler_def)
  then obtain result where r: "fn node (state c) = Inr result"
    and a: "after_success g node (record_success (enter_node node c cur) cur (state c) result)
              cur (state c) = Next c'"
    using assms
    by (auto simp: iteration_body_eq[OF Some] except_handler_def split: sum.splits)
  from after_success_Next[OF a] Some r nl show ?thesis
    by (simp add: record_success_simps enter_node_simps)
qed

lemma body_Raised:
  assumes "iteration_body g c cur = Raised f c'"
  shows "(nodes g cur = None \<and> f = NodesKeyError cur \<and> c' = c) \<or>
         (\<exists>e pre. f = Raise e \<and>
            logs c' = logs c @ pre @ [error_entry cur (state c) (state c') (str_exc e)] \<and>
            (pre = [] \<or> pre = [success_entry cur (state c) (state c')]) \<and>
            visited_sequence c' = visited_sequence c @ [cur])"
proof (cases "nodes g cur")
  case None
  with assms show ?thesis by (auto simp: iteration_body_def)
next
  case (Some node)
  show ?thesis
  proof (cases "node_type node = LOOP \<and>
              loop_limit_exceeded node (counter_get (loop_counter c) cur + 1)")
    case True
    with assms show ?thesis
      by (auto simp: iteration_body_eq[OF Some] except_handler_def error_entry_def
          enter_node_simps)
  next
    case nl: False
    show ?thesis
    proof (cases "fn node (state c)")
      case (Inl e)
      with assms nl show ?thesis
        by (auto simp: iteration_body_eq[OF Some] except_handler_def error_entry_def
            enter_node_simps)
    next
      case (Inr result)
      with assms nl have a:
        "after_success g node (record_success (enter_node node c cur) cur (state c) result)
           cur (state c) = Raised f c'"
        by (auto simp: iteration_body_eq[OF Some])
      from after_success_Raised[OF a] show ?thesis
        by (auto simp: record_success_simps enter_node_simps)
    qed
  qed
qed

lemma steps_logs:
  assumes "steps k g c = Some c'"
  shows "\<exists>new. logs c' = logs c @ new \<and> length new = k \<and>
           (\<forall>x \<in> set new. status x = ''success'') \<and>
           visited_sequence c' = visited_sequence c @ map node_id new"
  using assms
proof (induction k arbitrary: c)
  case 0
  then show ?case by simp
next
  case (Suc k)
  then obtain cur c1 where cur: "current_node_id c = Some cur" "cur \<noteq> []"
    and b: "iteration_body g c cur = Next c1" and s: "steps k g c1 = Some c'"
    by (auto split: option.splits if_splits iteration.splits)
  from body_Next[OF b] obtain result where
    l1: "logs c1 = logs c @ [success_entry cur (state c) (state c ++ result)]"
    and v1: "visited_sequence c1 = visited_sequence c @ [cur]" by blast
  from Suc.IH[OF s] obtain new where n: "logs c' = logs c1 @ new" "length new = k"
    "\<forall>x \<in> set new. status x = ''success''"
    "visited_sequence c' = visited_sequence c1 @ map node_id new" by blast
  let ?new = "success_entry cur (state c) (state c ++ result) # new"
  have "logs c' = logs c @ ?new" using n(1) l1 by simp
  moreover have "length ?new = Suc k" using n(2) by simp
  moreover have "\<forall>x \<in> set ?new. status x = ''success''"
    using n(3) by (simp add: success_entry_def)
  moreover have "visited_sequence c' = visited_sequence c @ map node_id ?new"
    using n(4) v1 by (simp add: success_entry_def)
  ultimately show ?case by blast
qed


lemma loop_failed_logs:
  assumes "loop n g c = Some (Failed (Raise e) c')"
  shows "\<exists>new inp. logs c' =
             logs c @ new @ [error_entry (last (visited_sequence c')) inp (state c') (str_exc e)] \<and>
           (\<forall>x \<in> set new. status x = ''success'')"
  using assms
proof (induction n arbitrary: c)
  case 0
  then show ?case by (auto split: if_splits)
next
  case (Suc n)
  show ?case
  proof (cases "current_node_id c")
    case None
    with Suc.prems show ?thesis by auto
  next
    case (Some cur)
    show ?thesis
    proof (cases "cur = []")
      case True
      with Some Suc.prems show ?thesis by auto
    next
      case False
      show ?thesis
      proof (cases "iteration_body g c cur")
        case (Next c1)
        with Some False Suc.prems have "loop n g c1 = Some (Failed (Raise e) c')" by simp
        from Suc.IH[OF this] obtain new inp where n:
          "logs c' = logs c1 @ new @
             [error_entry (last (visited_sequence c')) inp (state c') (str_exc e)]"
          "\<forall>x \<in> set new. status x = ''success''" by blast
        from body_Next[OF Next] obtain result where
          l1: "logs c1 = logs c @ [success_entry cur (state c) (state c ++ result)]" by blast
        let ?new = "success_entry cur (state c) (state c ++ result) # new"
        have "logs c' = logs c @ ?new @
             [error_entry (last (visited_sequence c')) inp (state c') (str_exc e)]"
          using n(1) l1 by simp
        moreover have "\<forall>x \<in> set ?new. status x = ''success''"
          using n(2) by (simp add: success_entry_def)
        ultimately show ?thesis by blast
      next
        case (Raised f c1)
        with Some False Suc.prems have fc: "f = Raise e" "c1 = c'" by simp_all
        from body_Raised[OF Raised] fc obtain pre where p:
          "logs c' = logs c @ pre @ [error_entry cur (state c) (state c') (str_exc e)]"
          "pre = [] \<or> pre = [success_entry cur (state c) (state c')]"
          "visited_sequence c' = visited_sequence c @ [cur]" by auto
        have "\<forall>x \<in> set pre. status x = ''success''"
          using p(2) by (auto simp: success_entry_def)
        moreover have "last (visited_sequence c') = cur" using p(3) by simp
        ultimately show ?thesis using p(1) by blast
      qed
    qed
  qed
qed

lemma count_list_snoc: "count_list (xs @ [y]) x = count_list xs x + (if x = y then 1 else 0)"
  by (induction xs) auto

lemma counter_invariant_body:
  assumes inv: "\<forall>n node. nodes g n = Some node \<and> node_type node = LOOP \<and> loop_condition node = None \<longrightarrow>
             counter_get (loop_counter c) n = int (count_list (visited_sequence c) n) \<and>
             int (count_list (visited_sequence c) n) \<le> max (max_iterations node) 0"
    and b: "iteration_body g c cur = Next c'"
  shows "\<forall>n node. nodes g n = Some node \<and> node_type node = LOOP \<and> loop_condition node = None \<longrightarrow>
             counter_get (loop_counter c') n = int (count_list (visited_sequence c') n) \<and>
             int (count_list (visited_sequence c') n) \<le> max (max_iterations node) 0"
proof (intro allI impI)
  fix n node
  assume h: "nodes g n = Some node \<and> node_type node = LOOP \<and> loop_condition node = None"
  from body_Next[OF b] obtain node0 result where n0: "nodes g cur = Some node0"
    and nl: "\<not> (node_type node0 = LOOP \<and>
              loop_limit_exceeded node0 (counter_get (loop_counter c) cur + 1))"
    and v: "visited_sequence c' = visited_sequence c @ [cur]"
    and lc: "loop_counter c' = loop_counter (enter_node node0 c cur) \<or>
            (loop_condition node0 \<noteq> None \<and>
             loop_counter c' = (loop_counter (enter_node node0 c cur))(cur \<mapsto> 0))"
    by blast
  from inv h have i: "counter_get (loop_counter c) n = int (count_list (visited_sequence c) n)"
    "int (count_list (visited_sequence c) n) \<le> max (max_iterations node) 0" by blast+
  show "counter_get (loop_counter c') n = int (count_list (visited_sequence c') n) \<and>
        int (count_list (visited_sequence c') n) \<le> max (max_iterations node) 0"
  proof (cases "n = cur")
    case True
    with h n0 have eq: "node0 = node" by simp
    with lc h have l: "loop_counter c' = (loop_counter c)(cur \<mapsto> counter_get (loop_counter c) cur + 1)"
      by (simp add: enter_node_simps)
    from nl eq h have le: "counter_get (loop_counter c) cur + 1 \<le> max_iterations node"
      by (simp add: loop_limit_exceeded_def)
    show ?thesis using True l le i v
      by (simp add: counter_get_def count_list_snoc)
  next
    case False
    have "counter_get (loop_counter c') n = counter_get (loop_counter c) n"
      using lc False by (auto simp: counter_get_def enter_node_simps)
    then show ?thesis using False i v by (simp add: count_list_snoc)
  qed
qed

lemma counter_invariant_steps:
  assumes "steps k g c = Some c'"
    and "\<forall>n node. nodes g n = Some node \<and> node_type node = LOOP \<and> loop_condition node = None \<longrightarrow>
             counter_get (loop_counter c) n = int (count_list (visited_sequence c) n) \<and>
             int (count_list (visited_sequence c) n) \<le> max (max_iterations node) 0"
  shows "\<forall>n node. nodes g n = Some node \<and> node_type node = LOOP \<and> loop_condition node = None \<longrightarrow>
             counter_get (loop_counter c') n = int (count_list (visited_sequence c') n) \<and>
             int (count_list (visited_sequence c') n) \<le> max (max_iterations node) 0"
  using assms
proof (induction k arbitrary: c)
  case 0
  then have "c' = c" by simp
  then show ?case using "0.prems"(2) by blast
next
  case (Suc k)
  from Suc.prems(1) obtain cur c1 where b: "iteration_body g c cur = Next c1"
    and s: "steps k g c1 = Some c'"
    by (auto split: option.splits if_splits iteration.splits)
  from Suc.IH[OF s counter_invariant_body[OF Suc.prems(2) b]] show ?case .
qed

lemma counter_invariant_run:
  assumes "steps k g (init_config g s) = Some c"
    and "nodes g n = Some node" "node_type node = LOOP" "loop_condition node = None"
  shows "counter_get (loop_counter c) n = int (count_list (visited_sequence c) n) \<and>
         int (count_list (visited_sequence c) n) \<le> max (max_iterations node) 0"
proof -
  have "\<forall>n node. nodes g n = Some node \<and> node_type node = LOOP \<and> loop_condition node = None \<longrightarrow>
      counter_get (loop_counter (init_config g s)) n =
        int (count_list (visited_sequence (init_config g s)) n) \<and>
      int (count_list (visited_sequence (init_config g s)) n) \<le> max (max_iterations node) 0"
    by (simp add: init_config_def counter_get_def)
  from counter_invariant_steps[OF assms(1) this] assms(2,3,4) show ?thesis by blast
qed

lemma body_limit_any_fn:
  assumes "nodes g cur = Some node" "node_type node = LOOP" "loop_condition node = None"
    "max_iterations node < counter_get (loop_counter c) cur + 1"
  shows "iteration_body (g\<lparr>nodes := (nodes g)(cur \<mapsto> node\<lparr>fn := f\<rparr>)\<rparr>) c cur =
         iteration_body g c cur"
proof -
  have "loop_limit_error cur (node\<lparr>fn := f\<rparr>) = loop_limit_error cur node"
    by (simp add: loop_limit_error_def)
  then show ?thesis
    using body_limit[of "g\<lparr>nodes := (nodes g)(cur \<mapsto> node\<lparr>fn := f\<rparr>)\<rparr>" cur "node\<lparr>fn := f\<rparr>" c]
      body_limit[OF assms] assms
    by simp
qed

text \<open>
  Claim C2, as amended. Take a run that stands at a loop node \<open>cur\<close> with no loop condition
  and bound \<open>K\<close>. The number of this attempt is the number of earlier attempts at \<open>cur\<close>
  plus one, and the counter after its increment equals it. The attempt number never
  exceeds \<open>max K 0 + 1\<close>. On attempt \<open>max K 0 + 1\<close> the run fails with the loop limit
  error, whatever the node function is (it is not called); on every earlier attempt the
  limit test is false and the pass is decided by the node function. For \<open>K \<ge> 0\<close> the
  failing attempt is attempt \<open>K + 1\<close>; for a negative bound it is the first.
\<close>

theorem loop_limit_at_attempt:
  assumes "steps k g (init_config g s) = Some c"
    and "current_node_id c = Some cur" "cur \<noteq> []"
    and "nodes g cur = Some node" "node_type node = LOOP" "loop_condition node = None"
  shows "counter_get (loop_counter c) cur + 1 = int (count_list (visited_sequence c) cur) + 1 \<and>
         int (count_list (visited_sequence c) cur) + 1 \<le> max (max_iterations node) 0 + 1 \<and>
         (int (count_list (visited_sequence c) cur) + 1 = max (max_iterations node) 0 + 1 \<longrightarrow>
            (\<exists>c'. loop (Suc n) g c = Some (Failed (Raise (loop_limit_error cur node)) c') \<and>
                  state c' = state c \<and>
                  (\<forall>f. iteration_body (g\<lparr>nodes := (nodes g)(cur \<mapsto> node\<lparr>fn := f\<rparr>)\<rparr>) c cur =
                       Raised (Raise (loop_limit_error cur node)) c'))) \<and>
         (int (count_list (visited_sequence c) cur) + 1 < max (max_iterations node) 0 + 1 \<longrightarrow>
            \<not> loop_limit_exceeded node (counter_get (loop_counter c) cur + 1) \<and>
            iteration_body g c cur =
              (case fn node (state c) of
                 Inl e \<Rightarrow> except_handler (enter_node node c cur) cur (state c) e
               | Inr result \<Rightarrow>
                   after_success g node
                     (record_success (enter_node node c cur) cur (state c) result) cur (state c)))"
proof -
  from counter_invariant_run[OF assms(1,4,5,6)]
  have i: "counter_get (loop_counter c) cur = int (count_list (visited_sequence c) cur)"
    "int (count_list (visited_sequence c) cur) \<le> max (max_iterations node) 0" by simp_all
  have 1: "counter_get (loop_counter c) cur + 1 = int (count_list (visited_sequence c) cur) + 1"
    using i(1) by simp
  have 2: "int (count_list (visited_sequence c) cur) + 1 \<le> max (max_iterations node) 0 + 1"
    using i(2) by simp
  have 3: "\<exists>c'. loop (Suc n) g c = Some (Failed (Raise (loop_limit_error cur node)) c') \<and>
                  state c' = state c \<and>
                  (\<forall>f. iteration_body (g\<lparr>nodes := (nodes g)(cur \<mapsto> node\<lparr>fn := f\<rparr>)\<rparr>) c cur =
                       Raised (Raise (loop_limit_error cur node)) c')"
    if "int (count_list (visited_sequence c) cur) + 1 = max (max_iterations node) 0 + 1"
  proof -
    have lt: "max_iterations node < counter_get (loop_counter c) cur + 1"
      using that i(1) by linarith
    note bl = body_limit[OF assms(4,5,6) lt]
    show ?thesis
      using assms(2,3) bl body_limit_any_fn[OF assms(4,5,6) lt] by simp
  qed
  have 4: "\<not> loop_limit_exceeded node (counter_get (loop_counter c) cur + 1) \<and>
            iteration_body g c cur =
              (case fn node (state c) of
                 Inl e \<Rightarrow> except_handler (enter_node node c cur) cur (state c) e
               | Inr result \<Rightarrow>
                   after_success g node
                     (record_success (enter_node node c cur) cur (state c) result) cur (state c))"
    if "int (count_list (visited_sequence c) cur) + 1 < max (max_iterations node) 0 + 1"
  proof -
    have "counter_get (loop_counter c) cur + 1 \<le> max_iterations node"
      using that i(1) by linarith
    then have "\<not> loop_limit_exceeded node (counter_get (loop_counter c) cur + 1)"
      by (simp add: loop_limit_exceeded_def)
    then show ?thesis by (simp add: iteration_body_eq[OF assms(4)])
  qed
  from 1 2 3 4 show ?thesis by blast
qed


lemma raise_in_iteration:
  assumes n: "nodes g cur = Some node"
    and nl: "\<not> (node_type node = LOOP \<and>
            loop_limit_exceeded node (counter_get (loop_counter c) cur + 1))"
    and r: "fn node (state c) = Inl e \<or>
         (\<exists>result. fn node (state c) = Inr result \<and>
            ((\<exists>p. loop_condition node = Some p \<and> node_type node = LOOP \<and>
                  p (state c ++ result) = Inl e) \<or>
             ((case loop_condition node of None \<Rightarrow> True
               | Some p \<Rightarrow> node_type node = LOOP \<longrightarrow> p (state c ++ result) = Inr False) \<and>
              get_next_nodes g cur (state c ++ result) = Inl e)))"
  shows "\<exists>c' pre. iteration_body g c cur = Raised (Raise e) c' \<and>
           logs c' = logs c @ pre @ [error_entry cur (state c) (state c') (str_exc e)] \<and>
           (pre = [] \<or> pre = [success_entry cur (state c) (state c')])"
proof -
  from r consider (a) "fn node (state c) = Inl e"
    | (b) result p where "fn node (state c) = Inr result" "loop_condition node = Some p"
        "node_type node = LOOP" "p (state c ++ result) = Inl e"
    | (c) result where "fn node (state c) = Inr result"
        "case loop_condition node of None \<Rightarrow> True
         | Some p \<Rightarrow> node_type node = LOOP \<longrightarrow> p (state c ++ result) = Inr False"
        "get_next_nodes g cur (state c ++ result) = Inl e"
    by blast
  then show ?thesis
  proof cases
    case a
    have "iteration_body g c cur = Raised (Raise e)
        ((enter_node node c cur)\<lparr>logs := logs c @ [error_entry cur (state c) (state c) (str_exc e)]\<rparr>)"
      using n nl a
      by (auto simp: iteration_body_eq[OF n] except_handler_def error_entry_def enter_node_simps)
    then show ?thesis by (auto simp: enter_node_simps)
  next
    case b
    let ?c4 = "record_success (enter_node node c cur) cur (state c) result"
    have "iteration_body g c cur = Raised (Raise e)
        (?c4\<lparr>logs := logs ?c4 @ [error_entry cur (state c) (state ?c4) (str_exc e)]\<rparr>)"
      using n nl b
      by (auto simp: iteration_body_eq[OF n] after_success_def except_handler_def
          error_entry_def record_success_simps enter_node_simps)
    then show ?thesis
      by (auto simp: record_success_simps enter_node_simps)
  next
    case c
    let ?c4 = "record_success (enter_node node c cur) cur (state c) result"
    have s4: "state ?c4 = state c ++ result"
      by (simp add: record_success_simps enter_node_simps)
    have body: "iteration_body g c cur = after_success g node ?c4 cur (state c)"
      using n nl c(1) by (auto simp: iteration_body_eq[OF n])
    have lv: "case loop_condition node of None \<Rightarrow> True
        | Some p \<Rightarrow> node_type node = LOOP \<longrightarrow> p (state ?c4) = Inr False"
      using c(2) unfolding s4 .
    from after_success_leaves[OF lv, of g cur "state c"]
    obtain c0 where c0: "after_success g node ?c4 cur (state c) = select_next g c0 cur (state c)"
      "state c0 = state ?c4" "logs c0 = logs ?c4" by blast
    have "select_next g c0 cur (state c) = Raised (Raise e)
        (c0\<lparr>logs := logs c0 @ [error_entry cur (state c) (state c0) (str_exc e)]\<rparr>)"
      using c(3) c0(2) s4 by (simp add: select_next_def except_handler_def error_entry_def)
    with body c0 s4 show ?thesis
      by (auto simp: record_success_simps enter_node_simps)
  qed
qed

text \<open>
  Claim C1, as amended. Take a run that has made \<open>k\<close> passes and stands at node \<open>cur\<close>,
  where the node function raises \<open>e\<close>, or returns and then the loop condition or an edge
  condition raises \<open>e\<close>. Then the run stops: \<^verbatim>\<open>logs\<close> ends with an error entry for
  \<open>cur\<close> that carries \<^verbatim>\<open>str(e)\<close>, the input state of the pass and the state at the
  failure; before it stand the \<open>k\<close> success entries of the earlier passes and at most the
  success entry of \<open>cur\<close> itself, so no entry of a later node exists; and \<^verbatim>\<open>run\<close>
  raises \<open>e\<close> itself, unchanged. The exception is all that leaves \<^verbatim>\<open>run\<close>: the log is
  not part of it.
\<close>

theorem raise_logs_error_and_reraises:
  assumes "steps k g (init_config g s) = Some c"
    and "current_node_id c = Some cur" "cur \<noteq> []" "nodes g cur = Some node"
    and "\<not> (node_type node = LOOP \<and>
            loop_limit_exceeded node (counter_get (loop_counter c) cur + 1))"
    and "fn node (state c) = Inl e \<or>
         (\<exists>result. fn node (state c) = Inr result \<and>
            ((\<exists>p. loop_condition node = Some p \<and> node_type node = LOOP \<and>
                  p (state c ++ result) = Inl e) \<or>
             ((case loop_condition node of None \<Rightarrow> True
               | Some p \<Rightarrow> node_type node = LOOP \<longrightarrow> p (state c ++ result) = Inr False) \<and>
              get_next_nodes g cur (state c ++ result) = Inl e)))"
  shows "\<exists>c' pre. loop (k + Suc n) g (init_config g s) = Some (Failed (Raise e) c') \<and>
           run (k + Suc n) g s = Some (Inl (Raise e)) \<and>
           logs c' = logs c @ pre @ [error_entry cur (state c) (state c') (str_exc e)] \<and>
           (pre = [] \<or> pre = [success_entry cur (state c) (state c')]) \<and>
           length (logs c) = k \<and> list_all (\<lambda>x. status x = ''success'') (logs c)"
proof -
  from raise_in_iteration[OF assms(4,5,6)] obtain c' pre where
    b: "iteration_body g c cur = Raised (Raise e) c'"
    and l: "logs c' = logs c @ pre @ [error_entry cur (state c) (state c') (str_exc e)]"
    "pre = [] \<or> pre = [success_entry cur (state c) (state c')]" by blast
  have lp: "loop (Suc n) g c = Some (Failed (Raise e) c')"
    using assms(2,3) b by simp
  have 1: "loop (k + Suc n) g (init_config g s) = Some (Failed (Raise e) c')"
    unfolding loop_steps[OF assms(1)] by (rule lp)
  have 2: "run (k + Suc n) g s = Some (Inl (Raise e))"
    unfolding run_steps[OF assms(1,2,3)] lp by simp
  from steps_logs[OF assms(1)]
  have 3: "length (logs c) = k" "list_all (\<lambda>x. status x = ''success'') (logs c)"
    by (auto simp: init_config_def list_all_iff)
  from 1 2 l 3 show ?thesis by blast
qed


section \<open>The properties on the small graphs\<close>

lemmas engine_defs =
  iteration_body_def after_success_def select_next_def get_next_nodes_def except_handler_def
  loop_limit_exceeded_def loop_limit_error_def counter_get_def init_config_def truthy_def
  run_def Let_def success_entry_def error_entry_def enter_node_def record_success_def

lemmas example_defs =
  ex_count_def count_node_def ex_spin_def spin_node_def ex_branch_def ex_fail1_def ex_fail2_def
  ex_empty_id_def ex_empty_dest_def mk_node_def mk_edge_def bump_def boom_def get0_def

text \<open>
  On \<open>ex_spin 1\<close> the first attempt succeeds and the second, attempt \<open>K + 1\<close>, fails, with
  any node function.
\<close>

theorem loop_limit_error_entry_witness:
  "\<exists>c'. loop (Suc 0) (ex_spin 1)
          (the (steps (Suc 0) (ex_spin 1) (init_config (ex_spin 1) Map.empty))) =
          Some (Failed (Raise (loop_limit_error ''spin'' (spin_node 1))) c') \<and>
        map status (logs c') = [''success'', ''error''] \<and>
        input_state (last (logs c')) ''n'' = Some 1 \<and>
        output_state (last (logs c')) ''n'' = Some 1 \<and>
        state c' ''n'' = Some 1"
proof -
  define c where "c = the (steps (Suc 0) (ex_spin 1) (init_config (ex_spin 1) Map.empty))"
  have h1: "current_node_id c = Some ''spin''" and h2: "''spin'' \<noteq> []"
    and h3: "nodes (ex_spin 1) ''spin'' = Some (spin_node 1)"
    and h4: "node_type (spin_node 1) = LOOP" and h5: "loop_condition (spin_node 1) = None"
    and h6: "max_iterations (spin_node 1) < counter_get (loop_counter c) ''spin'' + 1"
    by (simp_all add: c_def engine_defs example_defs)
  from loop_limit_error_entry[OF h1 h2 h3 h4 h5 h6, of 0] show ?thesis
    by (simp add: c_def engine_defs example_defs)
qed

text \<open>
  Claim C9, at the input where the code departs from it: a graph whose first node was added
  with the empty string as id has this node as its start node, and \<^verbatim>\<open>run\<close> raises
  "No start node defined".
\<close>

theorem empty_start_id_rejected:
  "add_node WorkflowGraph_init [] (bump ''n'') STANDARD None 10 = Inr ex_empty_id \<and>
   start_node ex_empty_id = Some [] \<and>
   run 1 ex_empty_id Map.empty = Some (Inl (Raise (Exc ''ValueError'' ''No start node defined'')))"
  by (simp add: add_node_def WorkflowGraph_init_def engine_defs example_defs)

text \<open>
  Against claim C1 as stated: two runs raise the same exception while the logs they
  accumulated differ, so the exception does not carry the log.
\<close>

theorem failure_does_not_carry_log:
  "run 2 ex_fail1 Map.empty = Some (Inl (Raise (Exc ''Exception'' ''boom''))) \<and>
   run 2 ex_fail2 Map.empty = Some (Inl (Raise (Exc ''Exception'' ''boom''))) \<and>
   map_option (\<lambda>out. map node_id (logs (outcome_config out)))
     (loop 2 ex_fail1 (init_config ex_fail1 Map.empty)) = Some [''a''] \<and>
   map_option (\<lambda>out. map node_id (logs (outcome_config out)))
     (loop 2 ex_fail2 (init_config ex_fail2 Map.empty)) = Some [''b'', ''a'']"
  by (simp add: numeral_2_eq_2 engine_defs example_defs)

text \<open>
  Against claim C2 as stated: with the bound \<open>K = -1\<close> the run fails in its first pass,
  at the first attempt, which is not attempt \<open>K + 1 = 0\<close>.
\<close>

theorem negative_bound_fails_first_attempt:
  "run 1 (ex_spin (- 1)) Map.empty =
     Some (Inl (Raise (loop_limit_error ''spin'' (spin_node (- 1))))) \<and>
   map_option (\<lambda>out. count_list (visited_sequence (outcome_config out)) ''spin'')
     (loop 1 (ex_spin (- 1)) (init_config (ex_spin (- 1)) Map.empty)) = Some 1 \<and>
   max_iterations (spin_node (- 1)) + 1 = 0"
  by (simp add: engine_defs example_defs)

theorem raise_logs_error_and_reraises_witness:
  "\<exists>c'. loop (Suc 0 + Suc 0) ex_fail2 (init_config ex_fail2 Map.empty) =
          Some (Failed (Raise (Exc ''Exception'' ''boom'')) c') \<and>
        run (Suc 0 + Suc 0) ex_fail2 Map.empty = Some (Inl (Raise (Exc ''Exception'' ''boom''))) \<and>
        map node_id (logs c') = [''b'', ''a''] \<and>
        map status (logs c') = [''success'', ''error''] \<and>
        map error (logs c') = [None, Some ''boom'']"
proof -
  define c where "c = the (steps (Suc 0) ex_fail2 (init_config ex_fail2 Map.empty))"
  define node where "node = mk_node ''a'' boom STANDARD None 10"
  have h1: "steps (Suc 0) ex_fail2 (init_config ex_fail2 Map.empty) = Some c"
    and h2: "current_node_id c = Some ''a''" and h3: "''a'' \<noteq> []"
    and h4: "nodes ex_fail2 ''a'' = Some node"
    and h5: "\<not> (node_type node = LOOP \<and>
               loop_limit_exceeded node (counter_get (loop_counter c) ''a'' + 1))"
    by (simp_all add: c_def node_def engine_defs example_defs)
  have "fn node (state c) = Inl (Exc ''Exception'' ''boom'')"
    by (simp add: node_def example_defs)
  then have h6: "fn node (state c) = Inl (Exc ''Exception'' ''boom'') \<or>
      (\<exists>result. fn node (state c) = Inr result \<and>
         ((\<exists>p. loop_condition node = Some p \<and> node_type node = LOOP \<and>
               p (state c ++ result) = Inl (Exc ''Exception'' ''boom'')) \<or>
          ((case loop_condition node of None \<Rightarrow> True
            | Some p \<Rightarrow> node_type node = LOOP \<longrightarrow> p (state c ++ result) = Inr False) \<and>
           get_next_nodes ex_fail2 ''a'' (state c ++ result) = Inl (Exc ''Exception'' ''boom''))))"
    by (rule disjI1)
  from raise_logs_error_and_reraises[OF h1 h2 h3 h4 h5 h6, of 0] show ?thesis
    by (auto simp add: c_def engine_defs example_defs)
qed

theorem loop_limit_at_attempt_witness:
  "int (count_list (visited_sequence
          (the (steps (Suc 0) (ex_spin 1) (init_config (ex_spin 1) Map.empty)))) ''spin'') + 1 = 2 \<and>
   (\<exists>c'. loop (Suc 0) (ex_spin 1)
           (the (steps (Suc 0) (ex_spin 1) (init_config (ex_spin 1) Map.empty))) =
          Some (Failed (Raise (loop_limit_error ''spin'' (spin_node 1))) c') \<and>
         iteration_body
           ((ex_spin 1)\<lparr>nodes := (nodes (ex_spin 1))(''spin'' \<mapsto> (spin_node 1)\<lparr>fn := boom\<rparr>)\<rparr>)
           (the (steps (Suc 0) (ex_spin 1) (init_config (ex_spin 1) Map.empty))) ''spin'' =
          Raised (Raise (loop_limit_error ''spin'' (spin_node 1))) c') \<and>
   \<not> loop_limit_exceeded (spin_node 1)
       (counter_get (loop_counter (init_config (ex_spin 1) Map.empty)) ''spin'' + 1)"
proof -
  define c0 where "c0 = init_config (ex_spin 1) Map.empty"
  define c where "c = the (steps (Suc 0) (ex_spin 1) (init_config (ex_spin 1) Map.empty))"
  have a1: "steps 0 (ex_spin 1) (init_config (ex_spin 1) Map.empty) = Some c0"
    and a2: "current_node_id c0 = Some ''spin''"
    and h1: "steps (Suc 0) (ex_spin 1) (init_config (ex_spin 1) Map.empty) = Some c"
    and h2: "current_node_id c = Some ''spin''" and h3: "''spin'' \<noteq> []"
    and h4: "nodes (ex_spin 1) ''spin'' = Some (spin_node 1)"
    and h5: "node_type (spin_node 1) = LOOP" and h6: "loop_condition (spin_node 1) = None"
    by (simp_all add: c_def c0_def engine_defs example_defs)
  from loop_limit_at_attempt[OF h1 h2 h3 h4 h5 h6, of 0]
    loop_limit_at_attempt[OF a1 a2 h3 h4 h5 h6, of 0]
  show ?thesis
    by (simp add: c_def c0_def engine_defs example_defs)
qed

theorem loop_condition_stays_or_resets_witness:
  "(\<exists>c'. iteration_body ex_count (init_config ex_count Map.empty) ''count'' = Next c' \<and>
         current_node_id c' = Some ''count'' \<and> loop_counter c' ''count'' = Some 1 \<and>
         iteration_body (ex_count\<lparr>edges := []\<rparr>) (init_config ex_count Map.empty) ''count'' =
           Next c') \<and>
   loop_counter (iteration_config (iteration_body ex_count
       (the (steps (Suc 0) ex_count (init_config ex_count Map.empty))) ''count'')) ''count'' =
     Some 0 \<and>
   current_node_id (iteration_config (iteration_body ex_count
       (the (steps (Suc 0) ex_count (init_config ex_count Map.empty))) ''count'')) =
     Some ''done''"
proof -
  define c0 where "c0 = init_config ex_count Map.empty"
  define c where "c = the (steps (Suc 0) ex_count (init_config ex_count Map.empty))"
  define p where "p = (\<lambda>s. Inr (get0 s ''n'' < 2) :: exc + bool)"
  have a1: "current_node_id c0 = Some ''count''" and h2: "''count'' \<noteq> []"
    and h3: "nodes ex_count ''count'' = Some count_node"
    and h4: "node_type count_node = LOOP" and h5: "loop_condition count_node = Some p"
    and a6: "fn count_node (state c0) = Inr [''n'' \<mapsto> 1]"
    and a7: "p (state c0 ++ [''n'' \<mapsto> 1]) = Inr True"
    and b1: "current_node_id c = Some ''count''"
    and b6: "fn count_node (state c) = Inr [''n'' \<mapsto> 2]"
    and b7: "p (state c ++ [''n'' \<mapsto> 2]) = Inr False"
    by (simp_all add: c_def c0_def p_def engine_defs example_defs)
  from loop_condition_stays_or_resets[OF a1 h2 h3 h4 h5 a6 a7, of 0]
    loop_condition_stays_or_resets[OF b1 h2 h3 h4 h5 b6 b7, of 0]
  show ?thesis
    by (simp add: c_def c0_def engine_defs example_defs)
qed

lemma first_eligible_selected_on_branch:
  "get_next_nodes ex_branch ''a'' [''n'' \<mapsto> 1] = Inr [''b'', ''c''] \<and>
   (\<exists>c'. select_next ex_branch (init_config ex_branch [''n'' \<mapsto> 1]) ''a'' Map.empty = Next c' \<and>
         current_node_id c' = Some ''b'')"
proof -
  define c where "c = init_config ex_branch [''n'' \<mapsto> 1]"
  have h: "\<forall>e \<in> set (edges ex_branch). from_node e = ''a'' \<longrightarrow>
             (\<forall>p. condition e = Some p \<longrightarrow> (\<exists>b. p (state c) = Inr b))"
    by (auto simp add: c_def engine_defs example_defs)
  from first_eligible_selected[OF h, of Map.empty] show ?thesis
    by (simp add: c_def engine_defs example_defs)
qed


theorem no_eligible_edge_returns_witness:
  "\<exists>c'. loop (Suc 0 + Suc 0) ex_branch (init_config ex_branch Map.empty) = Some (Returned c') \<and>
        run (Suc 0 + Suc 0) ex_branch Map.empty = Some (Inr (state c', logs c')) \<and>
        map status (logs c') = [''success'', ''success''] \<and>
        map node_id (logs c') = [''a'', ''b''] \<and>
        warnings c' = [MultipleNextNodes ''a'' [''b'', ''c''], EndedOutsideEndNodes ''b'']"
proof -
  define c where "c = the (steps (Suc 0) ex_branch (init_config ex_branch Map.empty))"
  define node where "node = mk_node ''b'' (bump ''b'') STANDARD None (10::int)"
  have h1: "steps (Suc 0) ex_branch (init_config ex_branch Map.empty) = Some c"
    and h2: "current_node_id c = Some ''b''" and h3: "''b'' \<noteq> []"
    and h4: "nodes ex_branch ''b'' = Some node"
    and h5: "\<not> (node_type node = LOOP \<and>
               loop_limit_exceeded node (counter_get (loop_counter c) ''b'' + 1))"
    and h6: "fn node (state c) = Inr [''b'' \<mapsto> 1]"
    and h7: "case loop_condition node of None \<Rightarrow> True
             | Some p \<Rightarrow> node_type node = LOOP \<longrightarrow> p (state c ++ [''b'' \<mapsto> 1]) = Inr False"
    and h8: "get_next_nodes ex_branch ''b'' (state c ++ [''b'' \<mapsto> 1]) = Inr []"
    by (simp_all add: c_def node_def engine_defs example_defs)
  from no_eligible_edge_returns[OF h1 h2 h3 h4 h5 h6 h7 h8, of 0] show ?thesis
    by (auto simp add: c_def engine_defs example_defs)
qed


section \<open>The copy at the entry of run\<close>

lemma run_ref_frame:
  assumes "run_ref fuel g h r = Some (h', res)" "a < length h"
  shows "h' ! a = h ! a"
  using assms
  by (auto simp: run_ref_def dict_copy_def nth_append
      split: if_splits option.splits outcome.splits)

lemma run_ref_returns:
  assumes "run_ref fuel g h r = Some (h', Inr (st, lg))"
  shows "st = length h \<and> st < length h' \<and> run fuel g (h ! r) = Some (Inr (h' ! st, lg))"
  using assms
  by (auto simp: run_ref_def run_def dict_copy_def nth_append
      split: if_splits option.splits outcome.splits)

text \<open>
  Claim C6. Let the caller's dictionary be the object \<open>r\<close> of the heap \<open>h\<close>. When
  \<^verbatim>\<open>run\<close> comes back, raising or returning, object \<open>r\<close> and every other object that
  existed before have their old contents, whatever the node functions returned. When it
  returns, the state it returns is an object \<open>st\<close> other than \<open>r\<close>, holding the final
  state of the run on the contents of \<open>r\<close>, and writing anything into \<open>r\<close> afterwards
  leaves the contents of \<open>st\<close> as they are.
\<close>

theorem run_copies_initial_state:
  assumes "r < length h" "run_ref fuel g h r = Some (h', res)"
  shows "h' ! r = h ! r \<and> (\<forall>a < length h. h' ! a = h ! a) \<and>
         (\<forall>st lg. res = Inr (st, lg) \<longrightarrow>
            st \<noteq> r \<and> st < length h' \<and>
            run fuel g (h ! r) = Some (Inr (h' ! st, lg)) \<and>
            (\<forall>d. (h'[r := d]) ! st = h' ! st))"
proof -
  have 1: "\<forall>a < length h. h' ! a = h ! a"
    using run_ref_frame[OF assms(2)] by blast
  have 2: "st \<noteq> r \<and> st < length h' \<and> run fuel g (h ! r) = Some (Inr (h' ! st, lg)) \<and>
            (\<forall>d. (h'[r := d]) ! st = h' ! st)" if "res = Inr (st, lg)" for st lg
  proof -
    from run_ref_returns[of fuel g h r h' st lg] assms(2) that
    have s: "st = length h" "st < length h'" "run fuel g (h ! r) = Some (Inr (h' ! st, lg))"
      by simp_all
    with assms(1) have "st \<noteq> r" by simp
    then show ?thesis using s by simp
  qed
  from 1 2 assms(1) show ?thesis by blast
qed

theorem run_copies_initial_state_witness:
  "\<exists>h' st lg. run_ref 3 ex_count [[''n'' \<mapsto> 0], [''other'' \<mapsto> 5]] 0 = Some (h', Inr (st, lg)) \<and>
     h' ! 0 = [''n'' \<mapsto> 0] \<and> st = 2 \<and> (h' ! st) ''n'' = Some 2 \<and>
     ((h'[0 := Map.empty]) ! st) ''n'' = Some 2"
proof -
  obtain h' res where r:
    "run_ref 3 ex_count [[''n'' \<mapsto> 0], [''other'' \<mapsto> 5]] 0 = Some (h', res)"
    by (simp add: numeral_3_eq_3 run_ref_def dict_copy_def engine_defs example_defs)
  have l: "(0::nat) < length [[''n'' \<mapsto> (0::int)], [''other'' \<mapsto> 5]]" by simp
  from run_copies_initial_state[OF l r] r show ?thesis
    by (auto simp add: numeral_3_eq_3 run_ref_def dict_copy_def engine_defs example_defs)
qed

section \<open>Properties of the code review workflow\<close>

lemma startswith_append: "startswith s p \<Longrightarrow> \<exists>r. s = p @ r"
  unfolding startswith_def by (metis append_take_drop_id)

lemma strip_infix: "\<exists>a r. line = a @ strip line @ r"
proof -
  have 1: "line = rstrip line @ rev (takeWhile py_isspace (rev line))"
    unfolding rstrip_def
    by (metis rev_append rev_rev_ident takeWhile_dropWhile_id)
  have 2: "rstrip line = takeWhile py_isspace (rstrip line) @ strip line"
    unfolding strip_def lstrip_def by simp
  from 1 2 show ?thesis by (metis append.assoc)
qed

lemma is_def_line_infix:
  assumes "is_def_line line"
  shows "\<exists>a r. line = a @ ''def '' @ r"
proof -
  from assms obtain r0 where "strip line = ''def '' @ r0"
    unfolding is_def_line_def using startswith_append by blast
  moreover obtain a r where "line = a @ strip line @ r" using strip_infix by blast
  ultimately have "line = a @ ''def '' @ (r0 @ r)" by simp
  then show ?thesis by blast
qed

lemma split_from_nonempty: "split_from sep cur s \<noteq> []"
  by (induction sep cur s rule: split_from.induct) auto

lemma startswith_self_append: "startswith (sep @ r) sep"
  by (simp add: startswith_def)

lemma split_from_two:
  assumes "sep \<noteq> []"
  shows "\<exists>x y zs. split_from sep cur (a @ sep @ r) = x # y # zs"
proof (induction a arbitrary: cur)
  case Nil
  from assms obtain c cs where s: "sep @ r = c # cs" by (cases "sep @ r") auto
  have "split_from sep cur (sep @ r) = cur # split_from sep [] (drop (length sep) (sep @ r))"
    using assms startswith_self_append[of sep r] unfolding s by simp
  moreover obtain y zs where "split_from sep [] (drop (length sep) (sep @ r)) = y # zs"
    using split_from_nonempty by (meson list.exhaust)
  ultimately show ?case by simp
next
  case (Cons x a)
  show ?case
  proof (cases "startswith (x # a @ sep @ r) sep")
    case True
    then have "split_from sep cur ((x # a) @ sep @ r) =
        cur # split_from sep [] (drop (length sep) (x # a @ sep @ r))"
      using assms by simp
    moreover obtain y zs where "split_from sep [] (drop (length sep) (x # a @ sep @ r)) = y # zs"
      using split_from_nonempty by (meson list.exhaust)
    ultimately show ?thesis by simp
  next
    case False
    then have "split_from sep cur ((x # a) @ sep @ r) = split_from sep (cur @ [x]) (a @ sep @ r)"
      by simp
    with Cons.IH[of "cur @ [x]"] show ?thesis by simp
  qed
qed

lemma extract_loop_ok:
  "\<exists>fs. extract_loop lines acc = Inr fs \<and>
        length fs = length acc + length (filter is_def_line lines)"
proof (induction lines arbitrary: acc)
  case Nil
  then show ?case by simp
next
  case (Cons line lines)
  show ?case
  proof (cases "is_def_line line")
    case False
    with Cons.IH[of acc] show ?thesis by simp
  next
    case True
    from is_def_line_infix[OF True] obtain a r where "line = a @ ''def '' @ r" by blast
    with split_from_two[of "''def ''" "[]" a r] obtain x y zs where
      sp: "split_py line ''def '' = x # y # zs" by (auto simp: split_py_def)
    obtain f fs' where sp2: "split_py y ''('' = f # fs'"
      using split_from_nonempty[of "''(''" "[]" y] by (cases "split_py y ''(''") (auto simp: split_py_def)
    from Cons.IH[of "acc @ [f]"] True sp sp2 show ?thesis by simp
  qed
qed

lemma val_add_int_ok:
  assumes "as_num v \<noteq> None" "float_of_int fl 1 \<noteq> None"
  shows "\<exists>w. val_add_int fl v 1 = Inr w"
proof -
  from assms(1) obtain x where x: "as_num v = Some x" by auto
  from assms(2) obtain one where one: "float_of_int fl 1 = Some one" by auto
  show ?thesis
    using x one by (cases x) (simp_all add: val_add_int_def num_add_def bind_exc_def)
qed

lemma extract_functions_ok:
  assumes "st ''code'' = Some (PStr code)"
    and "length (filter is_def_line (split_py code newline)) = 2"
    and "case st ''iteration'' of None \<Rightarrow> True | Some v \<Rightarrow> as_num v \<noteq> None"
    and "float_of_int fl 1 \<noteq> None"
  shows "\<exists>fs it. extract_functions fl st =
           Inr [''functions'' \<mapsto> PList (map PStr fs), ''function_count'' \<mapsto> PInt 2,
                ''iteration'' \<mapsto> it]"
proof -
  from extract_loop_ok[of "split_py code newline" "[]"] assms(2)
  obtain fs where fs: "extract_loop (split_py code newline) [] = Inr fs" "length fs = 2"
    by auto
  have "as_num (get_or st ''iteration'' (PInt 0)) \<noteq> None"
    using assms(3) by (auto simp: get_or_def split: option.splits)
  from val_add_int_ok[OF this assms(4)] obtain it where
    it: "val_add_int fl (get_or st ''iteration'' (PInt 0)) 1 = Inr it" by blast
  have "extract_functions fl st =
           Inr [''functions'' \<mapsto> PList (map PStr fs), ''function_count'' \<mapsto> PInt 2,
                ''iteration'' \<mapsto> it]"
    using assms(1) fs it
    by (simp add: extract_functions_def Let_def get_or_def val_split_def bind_exc_def)
  then show ?thesis by blast
qed

lemma check_complexity_ok:
  assumes "st ''code'' = Some (PStr code)"
  shows "\<exists>ci cs. check_complexity st =
           Inr [''complexity_issues'' \<mapsto> PInt ci, ''complexity_score'' \<mapsto> PInt cs] \<and>
           0 \<le> cs \<and> cs \<le> 100"
proof -
  let ?ci = "int (length (filter (\<lambda>line. int (length line) - int (length (lstrip line)) > 8)
                    (split_py code newline)))"
  have "check_complexity st =
      Inr [''complexity_issues'' \<mapsto> PInt ?ci, ''complexity_score'' \<mapsto> PInt (max 0 (100 - ?ci * 5))]"
    using assms
    by (simp add: check_complexity_def Let_def get_or_def val_split_def bind_exc_def)
  moreover have "0 \<le> max 0 (100 - ?ci * 5) \<and> max 0 (100 - ?ci * 5) \<le> 100" by simp
  ultimately show ?thesis by blast
qed

lemma detect_issues_ok:
  assumes "st ''code'' = Some (PStr code)" "st ''function_count'' = Some (PInt k)"
  shows "\<exists>iss. detect_issues fl st =
           Inr [''issues'' \<mapsto> PList (map PStr iss), ''issue_count'' \<mapsto> PInt (int (length iss))] \<and>
           length iss \<le> 3"
proof -
  let ?iss = "(if int (str_count code newline) > 30 then [''Long function''] else []) @
     (if int (str_count code [CHR 0x22, CHR 0x22, CHR 0x22]) < k
      then [''Missing docstrings''] else []) @
     (if str_contains ''import'' code \<and> k < int (str_count code ''import'')
      then [''Potential unused imports''] else [])"
  have "detect_issues fl st =
      Inr [''issues'' \<mapsto> PList (map PStr ?iss), ''issue_count'' \<mapsto> PInt (int (length ?iss))]"
    using assms
    by (simp add: detect_issues_def Let_def get_or_def val_count_def bind_exc_def int_lt_val_def
        int_gt_val_def str_in_val_def)
  moreover have "length ?iss \<le> 3" by simp
  ultimately show ?thesis by blast
qed

lemma str_in_val_list: "str_in_val s (PList xs) = Inr (PStr s \<in> set xs)"
  by (simp add: str_in_val_def)

lemma suggest_improvements_ok:
  assumes "st ''issues'' = Some (PList (map PStr iss))"
    and "st ''complexity_score'' = Some (PInt cs)" "0 \<le> cs" "cs \<le> 100"
    and "st ''issue_count'' = Some (PInt (int (length iss)))" "length iss \<le> 3"
    and fl: "\<forall>i. 0 \<le> i \<and> i \<le> 100 \<longrightarrow> float_of_int fl i \<noteq> None"
  shows "\<exists>sg q. suggest_improvements fl st =
           Inr [''suggestions'' \<mapsto> PList (map PStr sg), ''quality_score'' \<mapsto> q]"
proof -
  let ?ic = "int (length iss)"
  have m: "py_max fl (NInt 0) (NInt (100 - cs)) = NInt (100 - cs)"
    using assms(4) by (auto simp: py_max_def)
  from fl assms(3,4) obtain x where x: "float_of_int fl (100 - cs) = Some x" by fastforce
  have "0 \<le> 100 - ?ic * 10 \<and> 100 - ?ic * 10 \<le> 100" using assms(6) by simp
  with fl obtain y where y: "float_of_int fl (100 - ?ic * 10) = Some y" by fastforce
  let ?sg = "(if 2 < ?ic then [''Refactor into smaller functions''] else []) @
     (if cs < 60 then [''Reduce nesting depth''] else []) @
     (if PStr ''Missing docstrings'' \<in> set (map PStr iss :: 'a pyval list)
      then [''Add comprehensive docstrings''] else []) @
     (if PStr ''Potential unused imports'' \<in> set (map PStr iss :: 'a pyval list)
      then [''Clean up imports''] else [])"
  let ?q = "num_val (py_max fl (NInt 0)
              (py_min fl (NInt 100) (NFloat (f_sub fl y (f_mul fl x (f_tenth fl))))))"
  have "suggest_improvements fl st =
      Inr [''suggestions'' \<mapsto> PList (map PStr ?sg), ''quality_score'' \<mapsto> ?q]"
    using assms(1,2,5) m x y
    by (simp add: suggest_improvements_def Let_def get_or_def bind_exc_def str_in_val_list
        num_mul_def num_sub_def)
  then show ?thesis by blast
qed

lemma standard_step:
  assumes "cur \<noteq> []" "nodes g cur = Some node" "node_type node = STANDARD"
    and "fn node s = Inr r"
    and "get_next_nodes g cur (s ++ r) = Inr [n]"
  shows "loop (Suc k) g
           \<lparr>state = s, logs = lg, visited_sequence = vs, current_node_id = Some cur,
            loop_counter = lc, warnings = ws\<rparr> =
         loop k g
           \<lparr>state = s ++ r, logs = lg @ [success_entry cur s (s ++ r)],
            visited_sequence = vs @ [cur], current_node_id = Some n,
            loop_counter = lc, warnings = ws\<rparr>"
  using assms
  by (simp add: iteration_body_def Let_def after_success_def select_next_def success_entry_def
      split: option.splits)

lemma standard_last_step:
  assumes "cur \<noteq> []" "nodes g cur = Some node" "node_type node = STANDARD"
    and "fn node s = Inr r"
    and "get_next_nodes g cur (s ++ r) = Inr []"
    and "cur \<in> end_nodes g"
  shows "loop (Suc k) g
           \<lparr>state = s, logs = lg, visited_sequence = vs, current_node_id = Some cur,
            loop_counter = lc, warnings = ws\<rparr> =
         Some (Returned
           \<lparr>state = s ++ r, logs = lg @ [success_entry cur s (s ++ r)],
            visited_sequence = vs @ [cur], current_node_id = None,
            loop_counter = lc, warnings = ws\<rparr>)"
  using assms
  by (simp add: iteration_body_def Let_def after_success_def select_next_def success_entry_def
      loop_returned split: option.splits)

lemma code_review_next:
  "get_next_nodes (code_review_graph fl) ''extract'' st = Inr [''complexity'']"
  "get_next_nodes (code_review_graph fl) ''complexity'' st = Inr [''detect_issues'']"
  "get_next_nodes (code_review_graph fl) ''detect_issues'' st = Inr [''suggest'']"
  "get_next_nodes (code_review_graph fl) ''suggest'' st = Inr []"
  by (simp_all add: get_next_nodes_def code_review_graph_def mk_edge_def)

lemma code_review_nodes:
  "nodes (code_review_graph fl) ''extract'' =
     Some (mk_node ''extract'' (extract_functions fl) STANDARD None 10)"
  "nodes (code_review_graph fl) ''complexity'' =
     Some (mk_node ''complexity'' check_complexity STANDARD None 10)"
  "nodes (code_review_graph fl) ''detect_issues'' =
     Some (mk_node ''detect_issues'' (detect_issues fl) STANDARD None 10)"
  "nodes (code_review_graph fl) ''suggest'' =
     Some (mk_node ''suggest'' (suggest_improvements fl) STANDARD None 10)"
  by (simp_all add: code_review_graph_def)

lemma mk_node_simps:
  "fn (mk_node i f t l m) = f" "node_type (mk_node i f t l m) = t"
  "loop_condition (mk_node i f t l m) = l" "max_iterations (mk_node i f t l m) = m"
  by (simp_all add: mk_node_def)

lemma setup_builds_graph: "setup_code_review_workflow fl = Inr (code_review_graph fl)"
  by (simp add: setup_code_review_workflow_def code_review_graph_def bind_exc_def add_node_def
      add_edge_def set_start_node_def set_end_nodes_def WorkflowGraph_init_def mk_node_def
      mk_edge_def)

text \<open>
  Claim C8, as amended. The calls of \<^verbatim>\<open>setup_code_review_workflow\<close> build the linear
  graph. For every initial state whose \<^verbatim>\<open>code\<close> is text with exactly two lines that,
  stripped, start with \<^verbatim>\<open>def \<close>, and whose \<^verbatim>\<open>iteration\<close> is absent or a number,
  \<^verbatim>\<open>run\<close> returns within four passes, with \<^verbatim>\<open>function_count\<close> 2 in the final state and
  a log of four success entries for extract, complexity, detect\_issues and suggest, in
  this order. The floating point operations are any for which the integers from 0 to 100
  convert to a float.
\<close>

theorem code_review_two_def_lines:
  assumes code: "st ''code'' = Some (PStr code)"
    and two: "length (filter is_def_line (split_py code newline)) = 2"
    and it: "case st ''iteration'' of None \<Rightarrow> True | Some v \<Rightarrow> as_num v \<noteq> None"
    and fl: "\<forall>i. 0 \<le> i \<and> i \<le> 100 \<longrightarrow> float_of_int fl i \<noteq> None"
  shows "setup_code_review_workflow fl = Inr (code_review_graph fl) \<and>
         (\<exists>final lg. run (Suc (Suc (Suc (Suc n)))) (code_review_graph fl) st = Some (Inr (final, lg)) \<and>
            final ''function_count'' = Some (PInt 2) \<and>
            map node_id lg = [''extract'', ''complexity'', ''detect_issues'', ''suggest''] \<and>
            map status lg = [''success'', ''success'', ''success'', ''success''])"
proof -
  define g where "g = code_review_graph fl"
  have one: "float_of_int fl 1 \<noteq> None" using fl by simp
  from extract_functions_ok[OF code two it one] obtain fs itv where
    r1: "extract_functions fl st =
           Inr [''functions'' \<mapsto> PList (map PStr fs), ''function_count'' \<mapsto> PInt 2,
                ''iteration'' \<mapsto> itv]" by blast
  define s1 where "s1 = st ++ [''functions'' \<mapsto> PList (map PStr fs),
                ''function_count'' \<mapsto> PInt 2, ''iteration'' \<mapsto> itv]"
  have c1: "s1 ''code'' = Some (PStr code)" "s1 ''function_count'' = Some (PInt 2)"
    using code by (simp_all add: s1_def)
  from check_complexity_ok[of s1 code, OF c1(1)] obtain ci cs where
    r2: "check_complexity s1 =
           Inr [''complexity_issues'' \<mapsto> PInt ci, ''complexity_score'' \<mapsto> PInt cs]"
    and cs: "0 \<le> cs" "cs \<le> 100" by blast
  define s2 where "s2 = s1 ++ [''complexity_issues'' \<mapsto> PInt ci,
                ''complexity_score'' \<mapsto> PInt cs]"
  have c2: "s2 ''code'' = Some (PStr code)" "s2 ''function_count'' = Some (PInt 2)"
    "s2 ''complexity_score'' = Some (PInt cs)"
    using c1 by (simp_all add: s2_def)
  from detect_issues_ok[of s2 code 2 fl, OF c2(1,2)] obtain iss where
    r3: "detect_issues fl s2 =
           Inr [''issues'' \<mapsto> PList (map PStr iss), ''issue_count'' \<mapsto> PInt (int (length iss))]"
    and iss: "length iss \<le> 3" by blast
  define s3 where "s3 = s2 ++ [''issues'' \<mapsto> PList (map PStr iss),
                ''issue_count'' \<mapsto> PInt (int (length iss))]"
  have c3: "s3 ''issues'' = Some (PList (map PStr iss))"
    "s3 ''complexity_score'' = Some (PInt cs)"
    "s3 ''issue_count'' = Some (PInt (int (length iss)))"
    "s3 ''function_count'' = Some (PInt 2)"
    using c2 by (simp_all add: s3_def)
  from suggest_improvements_ok[of s3 iss cs fl, OF c3(1) c3(2) cs c3(3) iss fl] obtain sg q where
    r4: "suggest_improvements fl s3 =
           Inr [''suggestions'' \<mapsto> PList (map PStr sg), ''quality_score'' \<mapsto> q]" by blast
  define s4 where "s4 = s3 ++ [''suggestions'' \<mapsto> PList (map PStr sg),
                ''quality_score'' \<mapsto> q]"
  have c4: "s4 ''function_count'' = Some (PInt 2)"
    using c3 by (simp add: s4_def)
  have nd: "nodes g ''extract'' = Some (mk_node ''extract'' (extract_functions fl) STANDARD None 10)"
    "nodes g ''complexity'' = Some (mk_node ''complexity'' check_complexity STANDARD None 10)"
    "nodes g ''detect_issues'' = Some (mk_node ''detect_issues'' (detect_issues fl) STANDARD None 10)"
    "nodes g ''suggest'' = Some (mk_node ''suggest'' (suggest_improvements fl) STANDARD None 10)"
    unfolding g_def by (rule code_review_nodes)+
  have nx: "get_next_nodes g ''extract'' s1 = Inr [''complexity'']"
    "get_next_nodes g ''complexity'' s2 = Inr [''detect_issues'']"
    "get_next_nodes g ''detect_issues'' s3 = Inr [''suggest'']"
    "get_next_nodes g ''suggest'' s4 = Inr []"
    unfolding g_def by (rule code_review_next)+
  have en: "''suggest'' \<in> end_nodes g" by (simp add: g_def code_review_graph_def)
  have f1: "fn (mk_node ''extract'' (extract_functions fl) STANDARD None 10) st =
      Inr [''functions'' \<mapsto> PList (map PStr fs), ''function_count'' \<mapsto> PInt 2,
           ''iteration'' \<mapsto> itv]"
    unfolding mk_node_simps by (rule r1)
  have f2: "fn (mk_node ''complexity'' check_complexity STANDARD None 10) s1 =
      Inr [''complexity_issues'' \<mapsto> PInt ci, ''complexity_score'' \<mapsto> PInt cs]"
    unfolding mk_node_simps by (rule r2)
  have f3: "fn (mk_node ''detect_issues'' (detect_issues fl) STANDARD None 10) s2 =
      Inr [''issues'' \<mapsto> PList (map PStr iss), ''issue_count'' \<mapsto> PInt (int (length iss))]"
    unfolding mk_node_simps by (rule r3)
  have f4: "fn (mk_node ''suggest'' (suggest_improvements fl) STANDARD None 10) s3 =
      Inr [''suggestions'' \<mapsto> PList (map PStr sg), ''quality_score'' \<mapsto> q]"
    unfolding mk_node_simps by (rule r4)
  have ty: "node_type (mk_node i f STANDARD l m) = STANDARD" for i l m
    and f :: "'a pyval dict \<Rightarrow> exc + 'a pyval dict"
    by (simp add: mk_node_def)
  have ne: "''extract'' \<noteq> []" "''complexity'' \<noteq> []" "''detect_issues'' \<noteq> []"
    "''suggest'' \<noteq> []" by simp_all
  have i0: "init_config g st =
      \<lparr>state = st, logs = [], visited_sequence = [], current_node_id = Some ''extract'',
       loop_counter = Map.empty, warnings = []\<rparr>"
    by (simp add: init_config_def g_def code_review_graph_def)
  note l1 = standard_step[OF ne(1) nd(1) ty f1, folded s1_def, OF nx(1)]
  note l2 = standard_step[OF ne(2) nd(2) ty f2, folded s2_def, OF nx(2)]
  note l3 = standard_step[OF ne(3) nd(3) ty f3, folded s3_def, OF nx(3)]
  note l4 = standard_last_step[OF ne(4) nd(4) ty f4, folded s4_def, OF nx(4) en]
  have lp: "loop (Suc (Suc (Suc (Suc n)))) g (init_config g st) =
      Some (Returned
        \<lparr>state = s4,
         logs = [success_entry ''extract'' st s1, success_entry ''complexity'' s1 s2,
                 success_entry ''detect_issues'' s2 s3, success_entry ''suggest'' s3 s4],
         visited_sequence = [''extract'', ''complexity'', ''detect_issues'', ''suggest''],
         current_node_id = None, loop_counter = Map.empty, warnings = []\<rparr>)"
    unfolding i0 l1 l2 l3 l4 by simp
  have tr: "truthy (start_node g)" by (simp add: truthy_def g_def code_review_graph_def)
  have rn: "run (Suc (Suc (Suc (Suc n)))) g st =
      Some (Inr (s4, [success_entry ''extract'' st s1, success_entry ''complexity'' s1 s2,
                 success_entry ''detect_issues'' s2 s3, success_entry ''suggest'' s3 s4]))"
    unfolding run_def lp using tr by simp
  have ids: "map node_id [success_entry ''extract'' st s1, success_entry ''complexity'' s1 s2,
                 success_entry ''detect_issues'' s2 s3, success_entry ''suggest'' s3 s4] =
       [''extract'', ''complexity'', ''detect_issues'', ''suggest'']"
    by (simp add: success_entry_def)
  have sts: "map status [success_entry ''extract'' st s1, success_entry ''complexity'' s1 s2,
                 success_entry ''detect_issues'' s2 s3, success_entry ''suggest'' s3 s4] =
       [''success'', ''success'', ''success'', ''success'']"
    by (simp add: success_entry_def)
  have "\<exists>final lg. run (Suc (Suc (Suc (Suc n)))) (code_review_graph fl) st = Some (Inr (final, lg)) \<and>
            final ''function_count'' = Some (PInt 2) \<and>
            map node_id lg = [''extract'', ''complexity'', ''detect_issues'', ''suggest''] \<and>
            map status lg = [''success'', ''success'', ''success'', ''success'']"
    using rn[unfolded g_def] c4 ids sts
    by (intro exI[of _ s4]
        exI[of _ "[success_entry ''extract'' st s1, success_entry ''complexity'' s1 s2,
                 success_entry ''detect_issues'' s2 s3, success_entry ''suggest'' s3 s4]"] conjI)
  with setup_builds_graph[of fl] show ?thesis by (rule conjI[rotated, rotated])
qed

lemma two_defs_lines:
  "split_py two_defs newline = [''def f(x):'', ''  return x'', ''def g():'', ''  pass'']"
  by (simp add: two_defs_def newline_def split_py_def startswith_def)

lemma two_defs_count: "length (filter is_def_line (split_py two_defs newline)) = 2"
  unfolding two_defs_lines
  by (simp add: is_def_line_def strip_def lstrip_def rstrip_def py_isspace_def startswith_def)

lemma two_defs_functions: "extract_loop (split_py two_defs newline) [] = Inr [''f'', ''g'']"
  unfolding two_defs_lines
  by (simp add: is_def_line_def strip_def lstrip_def rstrip_def py_isspace_def startswith_def
      split_py_def)

lemma extract_text_iteration:
  "extract_functions exact_ops ex_state_text_iteration = Inl (add_error (PStr ''x'' :: rat pyval))"
  by (simp add: extract_functions_def ex_state_text_iteration_def get_or_def val_split_def
      bind_exc_def two_defs_functions Let_def val_add_int_def)

lemma four_Suc: "(4::nat) = Suc (Suc (Suc (Suc 0)))"
  by simp

text \<open>
  Against claim C8 as stated: the code has two \<^verbatim>\<open>def\<close> lines and \<^verbatim>\<open>iteration\<close> holds
  a string; \<^verbatim>\<open>extract_functions\<close> raises \<^verbatim>\<open>TypeError\<close> at
  \<^verbatim>\<open>state.get("iteration", 0) + 1\<close> and so does \<^verbatim>\<open>run\<close>.
\<close>

theorem text_iteration_fails_code_review:
  "ex_state_text_iteration ''code'' = Some (PStr two_defs) \<and>
   length (filter is_def_line (split_py two_defs newline)) = 2 \<and>
   run 4 (code_review_graph exact_ops) ex_state_text_iteration =
     Some (Inl (Raise (add_error (PStr ''x'' :: rat pyval))))"
proof -
  have "run (Suc (Suc (Suc (Suc 0)))) (code_review_graph exact_ops) ex_state_text_iteration =
     Some (Inl (Raise (add_error (PStr ''x'' :: rat pyval))))"
    by (simp add: run_def truthy_def init_config_def code_review_graph_def iteration_body_def
        mk_node_def Let_def extract_text_iteration except_handler_def)
  then show ?thesis
    unfolding four_Suc using two_defs_count by (simp add: ex_state_text_iteration_def)
qed

theorem code_review_two_def_lines_witness:
  "\<exists>final lg. run 4 (code_review_graph exact_ops) ex_state = Some (Inr (final, lg)) \<and>
     final ''function_count'' = Some (PInt 2) \<and>
     map node_id lg = [''extract'', ''complexity'', ''detect_issues'', ''suggest''] \<and>
     map status lg = [''success'', ''success'', ''success'', ''success'']"
proof -
  have h1: "ex_state ''code'' = Some (PStr two_defs)" by (simp add: ex_state_def)
  have h3: "case ex_state ''iteration'' of None \<Rightarrow> True | Some v \<Rightarrow> as_num v \<noteq> None"
    by (simp add: ex_state_def)
  have h4: "\<forall>i. 0 \<le> i \<and> i \<le> 100 \<longrightarrow> float_of_int exact_ops i \<noteq> None"
    by (simp add: exact_ops_def)
  from code_review_two_def_lines[OF h1 two_defs_count h3 h4, of 0] show ?thesis
    unfolding four_Suc by simp
qed


end
